theory Spec2Isabelle
  imports Complex_Main "HOL-Library.Word"
begin

unbundle bit_operations_syntax

section \<open>Data model (types.ts)\<close>

text \<open>
  Quantities and remaining shelf lives of batches are whole numbers (\<open>int\<close>); prices, rates
  and the numeric parameters of items and policies are \<open>real\<close>, so that every
  \<open>Math.round\<close>, \<open>Math.floor\<close> and \<open>Math.max\<close> of the source stays visible in the model.
  Arithmetic on these numbers is exact: rounding and overflow of IEEE doubles are not
  modelled.
\<close>

type_synonym Sku = string

datatype BatchState = Fresh | Frozen

record InventoryBatch =
  b_sku :: Sku
  b_qty :: int
  b_daysToExpire :: int
  b_state :: BatchState

datatype PerishableCategory = Produce | Meat | Dairy | Bakery | Prepared | FrozenFood | Other

record ItemSpec =
  i_sku :: Sku
  i_name :: string
  i_category :: PerishableCategory
  i_unitCost :: real
  i_basePrice :: real
  i_shelfLifeDays :: real
  i_leadTimeDays :: real
  i_baseDailyDemand :: real
  i_priceElasticity :: real
  i_shrinkRate :: real
  i_canFreeze :: bool
  i_freezeCostPerUnit :: real
  i_frozenShelfLifeDays :: real
  i_frozenPriceMultiplier :: real

record PendingDelivery =
  d_sku :: Sku
  d_qty :: int
  d_arrivingInDays :: int

record StoreState =
  s_day :: int
  inventory :: "InventoryBatch list"
  pendingDeliveries :: "PendingDelivery list"

record PricingRule =
  pr_daysToExpireAtMost :: real
  pr_priceMultiplier :: real

record ItemPolicy =
  p_sku :: Sku
  p_reorderPoint :: real
  p_orderUpTo :: real
  p_pricing :: "PricingRule list"
  p_donateDaysToExpireAtMost :: real
  p_donateMaxFractionPerDay :: real
  p_freezeDaysToExpireAtMost :: real
  p_freezeMaxUnitsPerDay :: real

text \<open>
  \<open>perSku\<close> is the object's own entries, as a finite map from SKU to policy; properties
  inherited from \<open>Object.prototype\<close> are not modelled.
\<close>

record InventoryPolicy =
  ip_id :: string
  ip_name :: string
  perSku :: "Sku \<rightharpoonup> ItemPolicy"

record SimulationConfig =
  c_days :: int
  c_seed :: int
  holdingCostPerUnitPerDay :: real
  wasteDisposalCostPerUnit :: real
  demandNoiseStdDev :: real
  countStockouts :: bool

record DaySkuMetrics =
  m_sku :: Sku
  m_startingFresh :: int
  m_startingFrozen :: int
  m_price :: real
  m_priceMultiplier :: real
  m_demand :: int
  m_soldFresh :: int
  m_soldFrozen :: int
  m_stockout :: int
  m_donated :: int
  m_frozenMoved :: int
  m_wasted :: int
  m_shrinkLost :: int
  m_revenue :: real
  m_cogs :: real
  m_holdingCost :: real
  m_wasteCost :: real
  m_freezeCost :: real

record DayMetrics =
  dm_day :: int
  dm_perSku :: "DaySkuMetrics list"

record Totals =
  t_revenue :: real
  t_cogs :: real
  t_holdingCost :: real
  t_wasteCost :: real
  t_freezeCost :: real
  t_profit :: real
  t_demand :: int
  t_sold :: int
  t_stockout :: int
  t_wasted :: int
  t_donated :: int

record SimulationResult =
  sr_config :: SimulationConfig
  sr_policy :: InventoryPolicy
  sr_items :: "ItemSpec list"
  sr_days :: "DayMetrics list"
  sr_totals :: Totals






text \<open>
  What the code throws: the configuration error of \<open>ensurePolicyComplete\<close>, which carries
  the SKU it names, and the \<open>TypeError\<close> of reading a field of an absent policy.
  \<open>DanglingReference\<close> is no JavaScript error: it is what the model answers to an address
  outside the heap, which no JavaScript reference is.
\<close>

datatype SimError = PolicyMissing Sku | PolicyUndefined Sku | DanglingReference nat

section \<open>Deterministic RNG (rng.ts)\<close>

text \<open>
  The generator's state is the closure variable \<open>t\<close>: a number that starts as the seed
  reduced to 32 bits (\<open>seed >>> 0\<close>, for an integer seed) and grows by a constant at every
  draw (the source does not wrap it; it is exact below \<open>2^53\<close>); the bit operations read
  it modulo \<open>2^32\<close>. \<open>Math.imul\<close> is multiplication of 32-bit words.
\<close>

type_synonym Rng = nat

definition createRng :: "int \<Rightarrow> Rng" where
  "createRng seed = nat (seed mod 4294967296)"

definition rngNext :: "Rng \<Rightarrow> real \<times> Rng" where
  "rngNext t =
     (let t' = t + 0x6d2b79f5;
          x0 = (word_of_nat t' :: 32 word);
          x1 = (x0 XOR drop_bit 15 x0) * (x0 OR 1);
          x2 = x1 XOR (x1 + (x1 XOR drop_bit 7 x1) * (x1 OR 61));
          r = real (unat (x2 XOR drop_bit 14 x2)) / 4294967296
      in (r, t'))"






definition EPSILON :: real where
  "EPSILON = 1 / 4503599627370496"

text \<open>Box-Muller, on exact reals.\<close>

definition rngNormal :: "Rng \<Rightarrow> real \<Rightarrow> real \<Rightarrow> real \<times> Rng" where
  "rngNormal t mean stdDev =
     (let (a, t1) = rngNext t;
          u1 = max a EPSILON;
          (u2, t2) = rngNext t1;
          z0 = sqrt (- 2 * ln u1) * cos (2 * pi * u2)
      in (mean + z0 * stdDev, t2))"

section \<open>Batch ledger operations (simulate.ts)\<close>

definition clamp01 :: "real \<Rightarrow> real" where
  "clamp01 x = max 0 (min 1 x)"

fun sumQty :: "InventoryBatch list \<Rightarrow> Sku \<Rightarrow> BatchState \<Rightarrow> int" where
  "sumQty [] sku st = 0"
| "sumQty (b # bs) sku st =
     (if b_sku b = sku \<and> b_state b = st then b_qty b else 0) + sumQty bs sku st"

text \<open>\<open>Array.prototype.sort\<close> is stable, and so is \<open>sort_key\<close>.\<close>

definition sortFifo :: "InventoryBatch list \<Rightarrow> InventoryBatch list" where
  "sortFifo batches = sort_key b_daysToExpire batches"

text \<open>
  The \<open>for (const b of batches)\<close> loop of \<open>takeFromBatches\<close>: the batches as the loop
  leaves them (emptied ones still in place) and the amount taken.
\<close>

fun takeLoop ::
  "InventoryBatch list \<Rightarrow> Sku \<Rightarrow> BatchState \<Rightarrow> int \<Rightarrow> InventoryBatch list \<times> int" where
  "takeLoop [] sku st remaining = ([], 0)"
| "takeLoop (b # bs) sku st remaining =
     (if remaining \<le> 0 then (b # bs, 0)
      else if b_sku b \<noteq> sku \<or> b_state b \<noteq> st then
        (let (bs', taken) = takeLoop bs sku st remaining in (b # bs', taken))
      else
        (let q = min (b_qty b) remaining in
         if q \<le> 0 then
           (let (bs', taken) = takeLoop bs sku st remaining in (b # bs', taken))
         else
           (let (bs', taken) = takeLoop bs sku st (remaining - q)
            in (b\<lparr>b_qty := b_qty b - q\<rparr> # bs', q + taken))))"

text \<open>The backwards \<open>splice\<close> loop: every batch with \<open>qty <= 0\<close> goes, of any SKU.\<close>

definition removeEmpty :: "InventoryBatch list \<Rightarrow> InventoryBatch list" where
  "removeEmpty batches = filter (\<lambda>b. \<not> b_qty b \<le> 0) batches"

definition takeFromBatches ::
  "InventoryBatch list \<Rightarrow> Sku \<Rightarrow> BatchState \<Rightarrow> int \<Rightarrow> InventoryBatch list \<times> int" where
  "takeFromBatches batches sku st qtyWanted =
     (if qtyWanted \<le> 0 then (batches, 0)
      else
        (let (bs, taken) = takeLoop (sortFifo batches) sku st qtyWanted
         in (removeEmpty bs, taken)))"

text \<open>The data-model invariant of the ledger: a batch that is present holds stock.\<close>

definition ledgerOk :: "InventoryBatch list \<Rightarrow> bool" where
  "ledgerOk batches = list_all (\<lambda>b. 0 < b_qty b) batches"

definition nonnegLedger :: "InventoryBatch list \<Rightarrow> bool" where
  "nonnegLedger batches = list_all (\<lambda>b. 0 \<le> b_qty b) batches"

section \<open>The daily per-SKU pipeline (simulate.ts)\<close>

definition applyPricing :: "ItemSpec \<Rightarrow> ItemPolicy \<Rightarrow> int \<Rightarrow> real \<times> real" where
  "applyPricing item policy minDaysToExpireFresh =
     (let rules = sort_key pr_daysToExpireAtMost (p_pricing policy);
          multiplier =
            (case find (\<lambda>r. real_of_int minDaysToExpireFresh \<le> pr_daysToExpireAtMost r) rules of
               None \<Rightarrow> 1
             | Some r \<Rightarrow> pr_priceMultiplier r);
          price = max 0 (i_basePrice item * multiplier)
      in (price, multiplier))"

text \<open>\<open>Math.pow\<close> of a positive base is \<open>powr\<close>.\<close>

definition demandForDay :: "ItemSpec \<Rightarrow> real \<Rightarrow> Rng \<Rightarrow> real \<Rightarrow> real \<times> Rng" where
  "demandForDay item priceMultiplier rng noiseStdDev =
     (let base = max 0 (i_baseDailyDemand item);
          priceEffect = (max (5 / 100) priceMultiplier) powr (i_priceElasticity item);
          (z, rng') = rngNormal rng 0 noiseStdDev;
          noise = max 0 (1 + z);
          d = base * priceEffect * noise
      in (max 0 d, rng'))"

fun ensurePolicyComplete :: "ItemSpec list \<Rightarrow> InventoryPolicy \<Rightarrow> SimError + unit" where
  "ensurePolicyComplete [] policy = Inr ()"
| "ensurePolicyComplete (item # items) policy =
     (case perSku policy (i_sku item) of
        None \<Rightarrow> Inl (PolicyMissing (i_sku item))
      | Some p \<Rightarrow> ensurePolicyComplete items policy)"

fun initialBatches :: "ItemSpec list \<Rightarrow> InventoryPolicy \<Rightarrow> SimError + InventoryBatch list" where
  "initialBatches [] policy = Inr []"
| "initialBatches (item # items) policy =
     (case perSku policy (i_sku item) of
        None \<Rightarrow> Inl (PolicyUndefined (i_sku item))
      | Some p \<Rightarrow>
          (case initialBatches items policy of
             Inl e \<Rightarrow> Inl e
           | Inr rest \<Rightarrow>
               (let startQty = max 0 (round (p_orderUpTo p))
                in if startQty > 0 then
                     Inr (\<lparr>b_sku = i_sku item, b_qty = startQty,
                           b_daysToExpire = max 1 (round (i_shelfLifeDays item)),
                           b_state = Fresh\<rparr> # rest)
                   else Inr rest)))"

definition createInitialState :: "ItemSpec list \<Rightarrow> InventoryPolicy \<Rightarrow> SimError + StoreState" where
  "createInitialState items policy =
     (case ensurePolicyComplete items policy of
        Inl e \<Rightarrow> Inl e
      | Inr u \<Rightarrow>
          (case initialBatches items policy of
             Inl e \<Rightarrow> Inl e
           | Inr stock \<Rightarrow> Inr \<lparr>s_day = 0, inventory = stock, pendingDeliveries = []\<rparr>))"

subsection \<open>Stage 1: delivery receipt\<close>

text \<open>
  Every countdown drops by one; a delivery at \<open>\<le> 0\<close> leaves the queue and, when its SKU
  is in the catalog, becomes a fresh batch. Quantities are whole numbers, on which
  \<open>Math.round\<close> is the identity.
\<close>

definition arrivingToday :: "PendingDelivery list \<Rightarrow> PendingDelivery list" where
  "arrivingToday pend =
     filter (\<lambda>d. d_arrivingInDays d \<le> 0)
       (map (\<lambda>d. d\<lparr>d_arrivingInDays := d_arrivingInDays d - 1\<rparr>) pend)"

definition stillPending :: "PendingDelivery list \<Rightarrow> PendingDelivery list" where
  "stillPending pend =
     filter (\<lambda>d. d_arrivingInDays d > 0)
       (map (\<lambda>d. d\<lparr>d_arrivingInDays := d_arrivingInDays d - 1\<rparr>) pend)"

fun receivedBatches :: "ItemSpec list \<Rightarrow> PendingDelivery list \<Rightarrow> InventoryBatch list" where
  "receivedBatches items [] = []"
| "receivedBatches items (a # arriving) =
     (case find (\<lambda>it. i_sku it = d_sku a) items of
        None \<Rightarrow> receivedBatches items arriving
      | Some item \<Rightarrow>
          \<lparr>b_sku = d_sku a, b_qty = max 0 (d_qty a),
           b_daysToExpire = max 1 (round (i_shelfLifeDays item)), b_state = Fresh\<rparr>
          # receivedBatches items arriving)"

definition receiveDeliveries :: "ItemSpec list \<Rightarrow> StoreState \<Rightarrow> StoreState" where
  "receiveDeliveries items st =
     st\<lparr>inventory := inventory st @ receivedBatches items (arrivingToday (pendingDeliveries st)),
        pendingDeliveries := stillPending (pendingDeliveries st)\<rparr>"

subsection \<open>Stage 2: freeze conversion\<close>

text \<open>
  The loop over the sorted inventory: the batches as the loop leaves them, the frozen
  batches it pushes (the iteration also meets them, and skips them as not fresh), and the
  number of units moved.
\<close>

fun freezeLoop ::
  "InventoryBatch list \<Rightarrow> ItemSpec \<Rightarrow> ItemPolicy \<Rightarrow> int \<Rightarrow>
   InventoryBatch list \<times> InventoryBatch list \<times> int" where
  "freezeLoop [] item p remainingCap = ([], [], 0)"
| "freezeLoop (b # bs) item p remainingCap =
     (if remainingCap \<le> 0 then (b # bs, [], 0)
      else if b_sku b \<noteq> i_sku item \<or> b_state b \<noteq> Fresh then
        (let (bs', pushed, moved) = freezeLoop bs item p remainingCap in (b # bs', pushed, moved))
      else if real_of_int (b_daysToExpire b) > p_freezeDaysToExpireAtMost p then
        (let (bs', pushed, moved) = freezeLoop bs item p remainingCap in (b # bs', pushed, moved))
      else
        (let q = min (b_qty b) remainingCap in
         if q \<le> 0 then
           (let (bs', pushed, moved) = freezeLoop bs item p remainingCap
            in (b # bs', pushed, moved))
         else
           (let (bs', pushed, moved) = freezeLoop bs item p (remainingCap - q)
            in (b\<lparr>b_qty := b_qty b - q\<rparr> # bs',
                \<lparr>b_sku = i_sku item, b_qty = q,
                 b_daysToExpire = max 1 (round (i_frozenShelfLifeDays item)),
                 b_state = Frozen\<rparr> # pushed,
                q + moved))))"

definition freezeStage ::
  "ItemSpec \<Rightarrow> ItemPolicy \<Rightarrow> InventoryBatch list \<Rightarrow> InventoryBatch list \<times> int" where
  "freezeStage item p stock =
     (if i_canFreeze item \<and> p_freezeMaxUnitsPerDay p > 0 then
        (let (bs, pushed, moved) =
               freezeLoop (sortFifo stock) item p (max 0 \<lfloor>p_freezeMaxUnitsPerDay p\<rfloor>)
         in (removeEmpty (bs @ pushed), moved))
      else (stock, 0))"

subsection \<open>Stage 3: donation\<close>

fun eligibleQty :: "InventoryBatch list \<Rightarrow> Sku \<Rightarrow> real \<Rightarrow> int" where
  "eligibleQty [] sku limit = 0"
| "eligibleQty (b # bs) sku limit =
     (if b_sku b = sku \<and> b_state b = Fresh \<and> real_of_int (b_daysToExpire b) \<le> limit
      then b_qty b else 0) + eligibleQty bs sku limit"

definition donateStage ::
  "ItemSpec \<Rightarrow> ItemPolicy \<Rightarrow> InventoryBatch list \<Rightarrow> InventoryBatch list \<times> int" where
  "donateStage item p stock =
     (if p_donateMaxFractionPerDay p > 0 then
        (let maxFraction = clamp01 (p_donateMaxFractionPerDay p);
             fifo = sortFifo stock;
             eligible = eligibleQty fifo (i_sku item) (p_donateDaysToExpireAtMost p);
             donateCap = \<lfloor>real_of_int eligible * maxFraction\<rfloor>
         in takeFromBatches fifo (i_sku item) Fresh donateCap)
      else (stock, 0))"

subsection \<open>Stage 4: pricing\<close>

text \<open>
  The smallest \<open>daysToExpire\<close> among the fresh batches of the SKU, the item's shelf life
  when there is none, floored and not below 0.
\<close>

definition minDaysToExpireFresh :: "ItemSpec \<Rightarrow> InventoryBatch list \<Rightarrow> int" where
  "minDaysToExpireFresh item stock =
     (let ds = map b_daysToExpire
                 (filter (\<lambda>b. b_sku b = i_sku item \<and> b_state b = Fresh) stock)
      in max 0 (case ds of [] \<Rightarrow> \<lfloor>i_shelfLifeDays item\<rfloor> | d # ds' \<Rightarrow> fold min ds' d))"

subsection \<open>Stages 5 to 7: demand, fulfillment, shrink\<close>

definition sellStage ::
  "Sku \<Rightarrow> int \<Rightarrow> InventoryBatch list \<Rightarrow> InventoryBatch list \<times> int \<times> int" where
  "sellStage sku demandInt stock =
     (let (inv1, soldFresh) = takeFromBatches stock sku Fresh demandInt;
          remainingDemand = max 0 (demandInt - soldFresh);
          (inv2, soldFrozen) =
            (if remainingDemand > 0 then takeFromBatches inv1 sku Frozen remainingDemand
             else (inv1, 0))
      in (inv2, soldFresh, soldFrozen))"

text \<open>
  Shrink returns the loss it records (\<open>shrinkLost\<close>) and the two locals \<open>lostFresh\<close> and
  \<open>lostFrozen\<close>, which are 0 when the \<open>if (shrinkLost > 0)\<close> block is skipped.
\<close>

definition shrinkStage ::
  "ItemSpec \<Rightarrow> InventoryBatch list \<Rightarrow> InventoryBatch list \<times> int \<times> int \<times> int" where
  "shrinkStage item stock =
     (let onHandAfterSales = sumQty stock (i_sku item) Fresh + sumQty stock (i_sku item) Frozen;
          shrinkLost = \<lfloor>real_of_int onHandAfterSales * clamp01 (i_shrinkRate item)\<rfloor>
      in if shrinkLost > 0 then
           (let (inv1, lostFresh) = takeFromBatches stock (i_sku item) Fresh shrinkLost;
                lostFrozen = shrinkLost - lostFresh;
                inv2 = (if lostFrozen > 0
                        then fst (takeFromBatches inv1 (i_sku item) Frozen lostFrozen)
                        else inv1)
            in (inv2, shrinkLost, lostFresh, lostFrozen))
         else (stock, shrinkLost, 0, 0))"

text \<open>The state of the loop body once shrink is done, with the locals computed so far.\<close>

record PreAging =
  pa_inventory :: "InventoryBatch list"
  pa_rng :: Rng
  pa_frozenMoved :: int
  pa_donated :: int
  pa_price :: real
  pa_priceMultiplier :: real
  pa_demandInt :: int
  pa_soldFresh :: int
  pa_soldFrozen :: int
  pa_stockout :: int
  pa_shrinkLost :: int
  pa_lostFresh :: int
  pa_lostFrozen :: int

definition upToShrink ::
  "ItemSpec \<Rightarrow> ItemPolicy \<Rightarrow> SimulationConfig \<Rightarrow> InventoryBatch list \<Rightarrow> Rng \<Rightarrow> PreAging" where
  "upToShrink item p cfg stock rng =
     (let (inv1, frozenMoved) = freezeStage item p stock;
          (inv2, donated) = donateStage item p inv1;
          (price, priceMultiplier) = applyPricing item p (minDaysToExpireFresh item inv2);
          (demand, rng') = demandForDay item priceMultiplier rng (demandNoiseStdDev cfg);
          demandInt = max 0 \<lfloor>demand\<rfloor>;
          (inv3, soldFresh, soldFrozen) = sellStage (i_sku item) demandInt inv2;
          unmet = max 0 (demandInt - soldFresh - soldFrozen);
          stockout = (if countStockouts cfg then unmet else 0);
          (inv4, shrinkLost, lostFresh, lostFrozen) = shrinkStage item inv3
      in \<lparr>pa_inventory = inv4, pa_rng = rng', pa_frozenMoved = frozenMoved,
          pa_donated = donated, pa_price = price, pa_priceMultiplier = priceMultiplier,
          pa_demandInt = demandInt, pa_soldFresh = soldFresh, pa_soldFrozen = soldFrozen,
          pa_stockout = stockout, pa_shrinkLost = shrinkLost, pa_lostFresh = lostFresh,
          pa_lostFrozen = lostFrozen\<rparr>)"

subsection \<open>Stage 8: aging and waste\<close>

definition ageBatches :: "Sku \<Rightarrow> InventoryBatch list \<Rightarrow> InventoryBatch list" where
  "ageBatches sku stock =
     map (\<lambda>b. if b_sku b \<noteq> sku then b else b\<lparr>b_daysToExpire := b_daysToExpire b - 1\<rparr>) stock"

text \<open>The batches the backwards loop splices out, and the ones it keeps.\<close>

definition expiredBatches :: "Sku \<Rightarrow> InventoryBatch list \<Rightarrow> InventoryBatch list" where
  "expiredBatches sku stock =
     filter (\<lambda>b. b_sku b = sku \<and> b_daysToExpire b \<le> 0) (ageBatches sku stock)"

definition keptBatches :: "Sku \<Rightarrow> InventoryBatch list \<Rightarrow> InventoryBatch list" where
  "keptBatches sku stock =
     filter (\<lambda>b. \<not> (b_sku b = sku \<and> b_daysToExpire b \<le> 0)) (ageBatches sku stock)"

definition ageStage :: "Sku \<Rightarrow> InventoryBatch list \<Rightarrow> InventoryBatch list \<times> int" where
  "ageStage sku stock = (keptBatches sku stock, sum_list (map b_qty (expiredBatches sku stock)))"

subsection \<open>Stage 9: replenishment\<close>

definition reorderDecision :: "ItemSpec \<Rightarrow> ItemPolicy \<Rightarrow> int \<Rightarrow> PendingDelivery list" where
  "reorderDecision item p freshOnHandNow =
     (if real_of_int freshOnHandNow \<le> p_reorderPoint p then
        (let target = max 0 (round (p_orderUpTo p));
             need = max 0 (target - freshOnHandNow)
         in if need > 0 then
              [\<lparr>d_sku = i_sku item, d_qty = need,
                d_arrivingInDays = max 0 (round (i_leadTimeDays item))\<rparr>]
            else [])
      else [])"

subsection \<open>The loop body for one SKU\<close>

definition skuStep ::
  "ItemSpec \<Rightarrow> ItemPolicy \<Rightarrow> SimulationConfig \<Rightarrow> StoreState \<Rightarrow> Rng \<Rightarrow>
   DaySkuMetrics \<times> StoreState \<times> Rng" where
  "skuStep item p cfg st rng =
     (let startingFresh = sumQty (inventory st) (i_sku item) Fresh;
          startingFrozen = sumQty (inventory st) (i_sku item) Frozen;
          pre = upToShrink item p cfg (inventory st) rng;
          frozenUnitPrice = i_basePrice item * i_frozenPriceMultiplier item;
          endingFresh = sumQty (pa_inventory pre) (i_sku item) Fresh;
          endingFrozen = sumQty (pa_inventory pre) (i_sku item) Frozen;
          holdingCost = real_of_int (endingFresh + endingFrozen) * holdingCostPerUnitPerDay cfg;
          (inv', wasted) = ageStage (i_sku item) (pa_inventory pre);
          freshOnHandNow = sumQty inv' (i_sku item) Fresh;
          pend' = pendingDeliveries st @ reorderDecision item p freshOnHandNow;
          revenue = real_of_int (pa_soldFresh pre) * pa_price pre
                    + real_of_int (pa_soldFrozen pre) * frozenUnitPrice;
          cogs = real_of_int (pa_soldFresh pre + pa_soldFrozen pre) * i_unitCost item;
          wasteCost = real_of_int wasted * wasteDisposalCostPerUnit cfg;
          freezeCost = real_of_int (pa_frozenMoved pre) * i_freezeCostPerUnit item
      in (\<lparr>m_sku = i_sku item, m_startingFresh = startingFresh,
            m_startingFrozen = startingFrozen, m_price = pa_price pre,
            m_priceMultiplier = pa_priceMultiplier pre, m_demand = pa_demandInt pre,
            m_soldFresh = pa_soldFresh pre, m_soldFrozen = pa_soldFrozen pre,
            m_stockout = pa_stockout pre, m_donated = pa_donated pre,
            m_frozenMoved = pa_frozenMoved pre, m_wasted = wasted,
            m_shrinkLost = pa_shrinkLost pre, m_revenue = revenue, m_cogs = cogs,
            m_holdingCost = holdingCost, m_wasteCost = wasteCost, m_freezeCost = freezeCost\<rparr>,
          st\<lparr>inventory := inv', pendingDeliveries := pend'\<rparr>,
          pa_rng pre))"

definition addTotals :: "Totals \<Rightarrow> DaySkuMetrics \<Rightarrow> Totals" where
  "addTotals tot m =
     tot\<lparr>t_revenue := t_revenue tot + m_revenue m,
         t_cogs := t_cogs tot + m_cogs m,
         t_holdingCost := t_holdingCost tot + m_holdingCost m,
         t_wasteCost := t_wasteCost tot + m_wasteCost m,
         t_freezeCost := t_freezeCost tot + m_freezeCost m,
         t_demand := t_demand tot + m_demand m,
         t_sold := t_sold tot + (m_soldFresh m + m_soldFrozen m),
         t_stockout := t_stockout tot + m_stockout m,
         t_wasted := t_wasted tot + m_wasted m,
         t_donated := t_donated tot + m_donated m\<rparr>"

section \<open>The simulation driver (simulate.ts)\<close>

text \<open>
  The loop over the catalog within one day. \<open>policy.perSku[item.sku]!\<close> is a lookup that
  the earlier check has made safe; reading a field of an absent policy would throw.
\<close>

fun skuLoop ::
  "ItemSpec list \<Rightarrow> InventoryPolicy \<Rightarrow> SimulationConfig \<Rightarrow> StoreState \<Rightarrow> Rng \<Rightarrow> Totals \<Rightarrow>
   SimError + (DaySkuMetrics list \<times> StoreState \<times> Rng \<times> Totals)" where
  "skuLoop [] policy cfg st rng tot = Inr ([], st, rng, tot)"
| "skuLoop (item # items) policy cfg st rng tot =
     (case perSku policy (i_sku item) of
        None \<Rightarrow> Inl (PolicyUndefined (i_sku item))
      | Some p \<Rightarrow>
          (let (m, st', rng') = skuStep item p cfg st rng
           in case skuLoop items policy cfg st' rng' (addTotals tot m) of
                Inl e \<Rightarrow> Inl e
              | Inr (ms, st'', rng'', tot') \<Rightarrow> Inr (m # ms, st'', rng'', tot')))"

definition dayStep ::
  "ItemSpec list \<Rightarrow> InventoryPolicy \<Rightarrow> SimulationConfig \<Rightarrow> int \<Rightarrow> StoreState \<Rightarrow> Rng \<Rightarrow> Totals \<Rightarrow>
   SimError + (DayMetrics \<times> StoreState \<times> Rng \<times> Totals)" where
  "dayStep items policy cfg day st rng tot =
     (case skuLoop items policy cfg (receiveDeliveries items st) rng tot of
        Inl e \<Rightarrow> Inl e
      | Inr (ms, st', rng', tot') \<Rightarrow>
          Inr (\<lparr>dm_day = day, dm_perSku = ms\<rparr>, st'\<lparr>s_day := s_day st' + 1\<rparr>, rng', tot'))"

text \<open>
  \<open>for (let day = 0; day < config.days; day++)\<close>: the first argument counts the
  iterations that remain, the second is \<open>day\<close>.
\<close>

fun daysLoop ::
  "nat \<Rightarrow> int \<Rightarrow> ItemSpec list \<Rightarrow> InventoryPolicy \<Rightarrow> SimulationConfig \<Rightarrow> StoreState \<Rightarrow> Rng \<Rightarrow>
   Totals \<Rightarrow> SimError + (DayMetrics list \<times> StoreState \<times> Rng \<times> Totals)" where
  "daysLoop 0 day items policy cfg st rng tot = Inr ([], st, rng, tot)"
| "daysLoop (Suc n) day items policy cfg st rng tot =
     (case dayStep items policy cfg day st rng tot of
        Inl e \<Rightarrow> Inl e
      | Inr (dm, st', rng', tot') \<Rightarrow>
          (case daysLoop n (day + 1) items policy cfg st' rng' tot' of
             Inl e \<Rightarrow> Inl e
           | Inr (dms, st'', rng'', tot'') \<Rightarrow> Inr (dm # dms, st'', rng'', tot'')))"

definition zeroTotals :: Totals where
  "zeroTotals =
     \<lparr>t_revenue = 0, t_cogs = 0, t_holdingCost = 0, t_wasteCost = 0, t_freezeCost = 0,
      t_profit = 0, t_demand = 0, t_sold = 0, t_stockout = 0, t_wasted = 0, t_donated = 0\<rparr>"

text \<open>
  The objects a caller can share with the run are the \<open>StoreState\<close> graphs: the heap holds
  one cell for each, and a reference is an index into it. \<open>structuredClone\<close> puts a deep
  copy into a new cell, and so does \<open>createInitialState\<close> with the state it builds; every
  assignment of the loop goes to that state, and the cell holds it as the run leaves it.
  The items, the policy and the config are only read (the pricing rules are copied before
  they are sorted), so they are passed as values.
  \<open>simulateInventory\<close> returns its result, or the error it throws, and the heap it leaves.
\<close>

type_synonym Heap = "StoreState list"

definition readState :: "Heap \<Rightarrow> nat \<Rightarrow> SimError + StoreState" where
  "readState heap a = (if a < length heap then Inr (heap ! a) else Inl (DanglingReference a))"

text \<open>A deep copy of a value is the value; what is new is the cell it goes to.\<close>

definition structuredClone :: "StoreState \<Rightarrow> StoreState" where
  "structuredClone st = st"

definition runFrom ::
  "ItemSpec list \<Rightarrow> InventoryPolicy \<Rightarrow> SimulationConfig \<Rightarrow> StoreState \<Rightarrow>
   SimError + (SimulationResult \<times> StoreState)" where
  "runFrom items policy cfg st0 =
     (case daysLoop (nat (c_days cfg)) 0 items policy cfg st0 (createRng (c_seed cfg)) zeroTotals of
        Inl e \<Rightarrow> Inl e
      | Inr (dms, st, rng, tot) \<Rightarrow>
          Inr (\<lparr>sr_config = cfg, sr_policy = policy, sr_items = items, sr_days = dms,
                sr_totals = tot\<lparr>t_profit := t_revenue tot - t_cogs tot - t_holdingCost tot
                                    - t_wasteCost tot - t_freezeCost tot\<rparr>\<rparr>, st))"

definition simulateInventory ::
  "ItemSpec list \<Rightarrow> InventoryPolicy \<Rightarrow> SimulationConfig \<Rightarrow> nat option \<Rightarrow> Heap \<Rightarrow>
   (SimError + SimulationResult) \<times> Heap" where
  "simulateInventory items policy cfg initialState heap =
     (case ensurePolicyComplete items policy of
        Inl e \<Rightarrow> (Inl e, heap)
      | Inr u \<Rightarrow>
          (case (case initialState of
                   Some a \<Rightarrow> map_sum id structuredClone (readState heap a)
                 | None \<Rightarrow> createInitialState items policy) of
             Inl e \<Rightarrow> (Inl e, heap)
           | Inr st0 \<Rightarrow>
               (case runFrom items policy cfg st0 of
                  Inl e \<Rightarrow> (Inl e, heap @ [st0])
                | Inr (res, st) \<Rightarrow> (Inr res, heap @ [st]))))"

section \<open>The evaluator (eval.ts)\<close>

text \<open>
  The evaluator's inputs are finite numbers. A division whose divisor is 0 gives
  \<open>Infinity\<close> or \<open>NaN\<close> in JavaScript: here it gives \<open>None\<close>, and so does everything
  computed from it. On finite numbers the \<open>Number.isFinite\<close> tests of \<open>safeDiv\<close> hold.
\<close>

definition jsDiv :: "real \<Rightarrow> real \<Rightarrow> real option" where
  "jsDiv n d = (if d = 0 then None else Some (n / d))"


definition normalizePositive :: "real \<Rightarrow> real \<Rightarrow> real option" where
  "normalizePositive v target =
     (if target \<le> 0 then Some (clamp01 (if v > 0 then 1 else 0))
      else
        (case jsDiv v target of
           None \<Rightarrow> None
         | Some x \<Rightarrow>
             (case jsDiv 1 (1 + exp (- 3 * (x - 1))) of
                None \<Rightarrow> None
              | Some y \<Rightarrow> Some (clamp01 y))))"

definition normalizeLowerIsBetter :: "real \<Rightarrow> real \<Rightarrow> real option" where
  "normalizeLowerIsBetter v target =
     (if target \<le> 0 then Some (clamp01 (if v \<le> 0 then 1 else 0))
      else
        (case jsDiv v target of
           None \<Rightarrow> None
         | Some x \<Rightarrow>
             (case jsDiv 1 (1 + exp (3 * (x - 1))) of
                None \<Rightarrow> None
              | Some y \<Rightarrow> Some (clamp01 y))))"


section \<open>Example inputs\<close>

text \<open>
  One SKU with a demand of 50 units a day and no noise, a policy with reorder point
  \<open>r\<close> and order-up-to level \<open>u\<close>, and a store that holds one batch of 100 units
  with \<open>d\<close> days left.
\<close>

definition exItem :: ItemSpec where
  "exItem = \<lparr>i_sku = ''X'', i_name = ''item'', i_category = Produce, i_unitCost = 1,
     i_basePrice = 2, i_shelfLifeDays = 5, i_leadTimeDays = 2, i_baseDailyDemand = 50,
     i_priceElasticity = 0, i_shrinkRate = 0, i_canFreeze = False, i_freezeCostPerUnit = 0,
     i_frozenShelfLifeDays = 30, i_frozenPriceMultiplier = 1\<rparr>"

definition exItemPolicy :: "real \<Rightarrow> real \<Rightarrow> ItemPolicy" where
  "exItemPolicy r u = \<lparr>p_sku = ''X'', p_reorderPoint = r, p_orderUpTo = u, p_pricing = [],
     p_donateDaysToExpireAtMost = 0, p_donateMaxFractionPerDay = 0,
     p_freezeDaysToExpireAtMost = 0, p_freezeMaxUnitsPerDay = 0\<rparr>"

definition exPolicy :: "real \<Rightarrow> real \<Rightarrow> InventoryPolicy" where
  "exPolicy r u = \<lparr>ip_id = ''p'', ip_name = ''policy'', perSku = [''X'' \<mapsto> exItemPolicy r u]\<rparr>"

definition exConfig :: SimulationConfig where
  "exConfig = \<lparr>c_days = 1, c_seed = 42, holdingCostPerUnitPerDay = 1,
     wasteDisposalCostPerUnit = 1, demandNoiseStdDev = 0, countStockouts = True\<rparr>"

definition exState :: "int \<Rightarrow> StoreState" where
  "exState d = \<lparr>s_day = 0,
     inventory = [\<lparr>b_sku = ''X'', b_qty = 100, b_daysToExpire = d, b_state = Fresh\<rparr>],
     pendingDeliveries = []\<rparr>"

definition exMetrics :: "int \<Rightarrow> DaySkuMetrics" where
  "exMetrics w =
     \<lparr>m_sku = ''X'', m_startingFresh = 100, m_startingFrozen = 0, m_price = 2,
      m_priceMultiplier = 1, m_demand = 50, m_soldFresh = 50, m_soldFrozen = 0,
      m_stockout = 0, m_donated = 0, m_frozenMoved = 0, m_wasted = w, m_shrinkLost = 0,
      m_revenue = 100, m_cogs = 50, m_holdingCost = 50, m_wasteCost = real_of_int w,
      m_freezeCost = 0\<rparr>"

section \<open>Ledger lemmas\<close>

lemma sumQty_append:
  "sumQty (xs @ ys) sku st = sumQty xs sku st + sumQty ys sku st"
  by (induction xs) auto

lemma sumQty_insort:
  "sumQty (insort_key f b bs) sku st = sumQty (b # bs) sku st"
  by (induction bs) auto

lemma sumQty_sortFifo: "sumQty (sortFifo bs) sku st = sumQty bs sku st"
  unfolding sortFifo_def by (induction bs) (auto simp: sumQty_insort)

lemma set_sortFifo: "set (sortFifo bs) = set bs"
  by (simp add: sortFifo_def)

lemma length_sortFifo: "length (sortFifo bs) = length bs"
  by (simp add: sortFifo_def)

lemma nonnegLedger_sortFifo: "nonnegLedger (sortFifo bs) = nonnegLedger bs"
  by (simp add: nonnegLedger_def list_all_iff set_sortFifo)

lemma ledgerOk_sortFifo: "ledgerOk (sortFifo bs) = ledgerOk bs"
  by (simp add: ledgerOk_def list_all_iff set_sortFifo)

lemma ledgerOk_nonneg: "ledgerOk bs \<Longrightarrow> nonnegLedger bs"
  by (auto simp: ledgerOk_def nonnegLedger_def list_all_iff)

lemma sumQty_nonneg: "nonnegLedger bs \<Longrightarrow> 0 \<le> sumQty bs sku st"
  by (induction bs) (auto simp: nonnegLedger_def)

lemma sumQty_removeEmpty:
  "nonnegLedger bs \<Longrightarrow> sumQty (removeEmpty bs) sku st = sumQty bs sku st"
  by (induction bs) (auto simp: nonnegLedger_def removeEmpty_def)

lemma nonnegLedger_removeEmpty: "nonnegLedger bs \<Longrightarrow> nonnegLedger (removeEmpty bs)"
  by (auto simp: nonnegLedger_def removeEmpty_def list_all_iff)

lemma ledgerOk_removeEmpty: "ledgerOk (removeEmpty bs)"
  by (auto simp: ledgerOk_def removeEmpty_def list_all_iff)

lemma takeLoop_Cons:
  "takeLoop (b # bs) sku st r =
     (if r \<le> 0 then (b # bs, 0)
      else if b_sku b \<noteq> sku \<or> b_state b \<noteq> st \<or> min (b_qty b) r \<le> 0 then
        (b # fst (takeLoop bs sku st r), snd (takeLoop bs sku st r))
      else
        (b\<lparr>b_qty := b_qty b - min (b_qty b) r\<rparr> # fst (takeLoop bs sku st (r - min (b_qty b) r)),
         min (b_qty b) r + snd (takeLoop bs sku st (r - min (b_qty b) r))))"
  by (auto simp: Let_def split: prod.splits)

declare takeLoop.simps(2) [simp del]

lemma length_takeLoop: "length (fst (takeLoop bs sku st r)) = length bs"
  by (induction bs arbitrary: r) (simp_all add: takeLoop_Cons)

lemma takeLoop_sum:
  "sumQty (fst (takeLoop bs sku st r)) sku st = sumQty bs sku st - snd (takeLoop bs sku st r)"
  by (induction bs arbitrary: r) (simp_all add: takeLoop_Cons)

lemma takeLoop_other:
  "sku' \<noteq> sku \<or> st' \<noteq> st \<Longrightarrow>
   sumQty (fst (takeLoop bs sku st r)) sku' st' = sumQty bs sku' st'"
  by (induction bs arbitrary: r) (auto simp: takeLoop_Cons)

lemma takeLoop_taken:
  "nonnegLedger bs \<Longrightarrow> 0 \<le> r \<Longrightarrow> snd (takeLoop bs sku st r) = min r (sumQty bs sku st)"
proof (induction bs arbitrary: r)
  case Nil
  then show ?case by simp
next
  case (Cons b bs)
  have nn: "nonnegLedger bs" and qb: "0 \<le> b_qty b"
    using Cons.prems(1) by (auto simp: nonnegLedger_def)
  have s0: "0 \<le> sumQty bs sku st" using nn by (rule sumQty_nonneg)
  show ?case
  proof (cases "r \<le> 0")
    case True
    then have "r = 0" using Cons.prems(2) by simp
    then show ?thesis using s0 qb by (simp add: takeLoop_Cons)
  next
    case False
    then show ?thesis
      using Cons.IH [OF nn, of r] Cons.IH [OF nn, of "r - min (b_qty b) r"] s0 qb
      by (auto simp: takeLoop_Cons)
  qed
qed

lemma nonnegLedger_takeLoop:
  "nonnegLedger bs \<Longrightarrow> nonnegLedger (fst (takeLoop bs sku st r))"
  by (induction bs arbitrary: r) (auto simp: nonnegLedger_def takeLoop_Cons)

lemma takeLoop_done: "r \<le> 0 \<Longrightarrow> takeLoop bs sku st r = (bs, 0)"
  by (cases bs) (simp_all add: takeLoop_Cons)

text \<open>
  Inside the loop: once a later batch of the pool has lost units, every earlier batch of
  the pool has been emptied.
\<close>

lemma takeLoop_fifo:
  assumes "ledgerOk bs" "i < j" "j < length bs" "b_sku (bs ! i) = sku" "b_state (bs ! i) = st"
    "b_qty (fst (takeLoop bs sku st r) ! j) < b_qty (bs ! j)"
  shows "b_qty (fst (takeLoop bs sku st r) ! i) = 0"
  using assms
proof (induction bs arbitrary: i j r)
  case Nil
  then show ?case by simp
next
  case (Cons b bs)
  obtain j' where j: "j = Suc j'" using Cons.prems(2) by (cases j) auto
  have ok: "ledgerOk bs" "0 < b_qty b" using Cons.prems(1) by (auto simp: ledgerOk_def)
  have rpos: "\<not> r \<le> 0"
  proof
    assume "r \<le> 0"
    then show False using Cons.prems(6) by (simp add: takeLoop_done)
  qed
  show ?case
  proof (cases i)
    case 0
    show ?thesis
    proof (cases "b_qty b \<le> r")
      case True
      then show ?thesis using 0 rpos ok Cons.prems(4,5) by (simp add: takeLoop_Cons min_def)
    next
      case False
      then show ?thesis using 0 rpos ok Cons.prems(4,5,6) j
        by (simp add: takeLoop_Cons min_def takeLoop_done)
    qed
  next
    case (Suc i')
    have lt: "i' < j'" "j' < length bs" using Suc j Cons.prems(2,3) by auto
    have m: "b_sku (bs ! i') = sku" "b_state (bs ! i') = st" using Suc Cons.prems(4,5) by auto
    show ?thesis
      using Cons.IH [OF ok(1) lt m] Cons.prems(6) rpos Suc j
      by (auto simp: takeLoop_Cons split: if_splits)
  qed
qed

lemma sorted_sortFifo: "sorted (map b_daysToExpire (sortFifo bs))"
  by (simp add: sortFifo_def)

lemma sortFifo_index_order:
  assumes "i < length bs" "j < length bs"
    "b_daysToExpire (sortFifo bs ! i) < b_daysToExpire (sortFifo bs ! j)"
  shows "i < j"
proof (rule ccontr)
  assume "\<not> i < j"
  then have "j \<le> i" by simp
  then have "map b_daysToExpire (sortFifo bs) ! j \<le> map b_daysToExpire (sortFifo bs) ! i"
    using assms(1) by (intro sorted_nth_mono [OF sorted_sortFifo]) (simp_all add: length_sortFifo)
  then show False using assms by (simp add: length_sortFifo)
qed

lemma takeFromBatches_taken:
  "nonnegLedger bs \<Longrightarrow> 0 \<le> w \<Longrightarrow>
   snd (takeFromBatches bs sku st w) = min w (sumQty bs sku st)"
  using sumQty_nonneg [of bs sku st]
  by (auto simp: takeFromBatches_def Let_def split: prod.splits
      dest: takeLoop_taken [of "sortFifo bs" w sku st, unfolded nonnegLedger_sortFifo sumQty_sortFifo])

lemma takeFromBatches_sum:
  "nonnegLedger bs \<Longrightarrow>
   sumQty (fst (takeFromBatches bs sku st w)) sku st =
     sumQty bs sku st - snd (takeFromBatches bs sku st w)"
  using takeLoop_sum [of "sortFifo bs" sku st w]
    nonnegLedger_takeLoop [of "sortFifo bs" sku st w]
  by (auto simp: takeFromBatches_def Let_def sumQty_removeEmpty sumQty_sortFifo
      nonnegLedger_sortFifo split: prod.splits)

lemma takeFromBatches_other:
  "nonnegLedger bs \<Longrightarrow> sku' \<noteq> sku \<or> st' \<noteq> st \<Longrightarrow>
   sumQty (fst (takeFromBatches bs sku st w)) sku' st' = sumQty bs sku' st'"
  using takeLoop_other [of sku' sku st' st "sortFifo bs" w]
    nonnegLedger_takeLoop [of "sortFifo bs" sku st w]
  by (auto simp: takeFromBatches_def Let_def sumQty_removeEmpty sumQty_sortFifo
      nonnegLedger_sortFifo split: prod.splits)

lemma nonnegLedger_takeFromBatches:
  "nonnegLedger bs \<Longrightarrow> nonnegLedger (fst (takeFromBatches bs sku st w))"
  using nonnegLedger_takeLoop [of "sortFifo bs" sku st w]
  by (auto simp: takeFromBatches_def Let_def nonnegLedger_removeEmpty
      nonnegLedger_sortFifo split: prod.splits)

lemma ledgerOk_takeFromBatches:
  "ledgerOk bs \<Longrightarrow> ledgerOk (fst (takeFromBatches bs sku st w))"
  by (auto simp: takeFromBatches_def Let_def ledgerOk_removeEmpty split: prod.splits)

subsection \<open>Freeze conversion\<close>

lemma freezeLoop_Cons:
  "freezeLoop (b # bs) item p cap =
     (if cap \<le> 0 then (b # bs, [], 0)
      else if b_sku b \<noteq> i_sku item \<or> b_state b \<noteq> Fresh
              \<or> real_of_int (b_daysToExpire b) > p_freezeDaysToExpireAtMost p
              \<or> min (b_qty b) cap \<le> 0 then
        (b # fst (freezeLoop bs item p cap), fst (snd (freezeLoop bs item p cap)),
         snd (snd (freezeLoop bs item p cap)))
      else
        (b\<lparr>b_qty := b_qty b - min (b_qty b) cap\<rparr>
           # fst (freezeLoop bs item p (cap - min (b_qty b) cap)),
         \<lparr>b_sku = i_sku item, b_qty = min (b_qty b) cap,
          b_daysToExpire = max 1 (round (i_frozenShelfLifeDays item)), b_state = Frozen\<rparr>
           # fst (snd (freezeLoop bs item p (cap - min (b_qty b) cap))),
         min (b_qty b) cap + snd (snd (freezeLoop bs item p (cap - min (b_qty b) cap)))))"
  by (auto simp: Let_def split: prod.splits)

declare freezeLoop.simps(2) [simp del]

lemma freezeLoop_fresh:
  "sumQty (fst (freezeLoop bs item p cap)) (i_sku item) Fresh =
     sumQty bs (i_sku item) Fresh - snd (snd (freezeLoop bs item p cap))"
  by (induction bs arbitrary: cap) (simp_all add: freezeLoop_Cons)

lemma freezeLoop_other_sku:
  "sku \<noteq> i_sku item \<Longrightarrow>
   sumQty (fst (freezeLoop bs item p cap)) sku st = sumQty bs sku st"
  by (induction bs arbitrary: cap) (simp_all add: freezeLoop_Cons)

lemma freezeLoop_frozen_kept:
  "sumQty (fst (freezeLoop bs item p cap)) sku Frozen = sumQty bs sku Frozen"
  by (induction bs arbitrary: cap) (simp_all add: freezeLoop_Cons)

lemma freezeLoop_pushed_frozen:
  "sumQty (fst (snd (freezeLoop bs item p cap))) (i_sku item) Frozen =
     snd (snd (freezeLoop bs item p cap))"
  by (induction bs arbitrary: cap) (simp_all add: freezeLoop_Cons)

lemma freezeLoop_pushed_other_sku:
  "sku \<noteq> i_sku item \<Longrightarrow> sumQty (fst (snd (freezeLoop bs item p cap))) sku st = 0"
  by (induction bs arbitrary: cap) (simp_all add: freezeLoop_Cons)

lemma freezeLoop_pushed_fresh:
  "sumQty (fst (snd (freezeLoop bs item p cap))) sku Fresh = 0"
  by (induction bs arbitrary: cap) (simp_all add: freezeLoop_Cons)

lemma nonnegLedger_append:
  "nonnegLedger (xs @ ys) = (nonnegLedger xs \<and> nonnegLedger ys)"
  by (simp add: nonnegLedger_def)

lemma freezeLoop_nonneg1:
  "nonnegLedger bs \<Longrightarrow> nonnegLedger (fst (freezeLoop bs item p cap))"
  by (induction bs arbitrary: cap) (auto simp: freezeLoop_Cons nonnegLedger_def)

lemma freezeLoop_nonneg2:
  "nonnegLedger (fst (snd (freezeLoop bs item p cap)))"
  by (induction bs arbitrary: cap) (auto simp: freezeLoop_Cons nonnegLedger_def)

lemma freezeStage_unfold:
  "freezeStage item p stock =
     (if i_canFreeze item \<and> p_freezeMaxUnitsPerDay p > 0 then
        (removeEmpty
           (fst (freezeLoop (sortFifo stock) item p (max 0 \<lfloor>p_freezeMaxUnitsPerDay p\<rfloor>))
            @ fst (snd (freezeLoop (sortFifo stock) item p (max 0 \<lfloor>p_freezeMaxUnitsPerDay p\<rfloor>)))),
         snd (snd (freezeLoop (sortFifo stock) item p (max 0 \<lfloor>p_freezeMaxUnitsPerDay p\<rfloor>))))
      else (stock, 0))"
  by (simp add: freezeStage_def Let_def split: prod.splits)

lemma freezeStage_nonneg:
  "nonnegLedger stock \<Longrightarrow> nonnegLedger (fst (freezeStage item p stock))"
  by (simp add: freezeStage_unfold nonnegLedger_removeEmpty nonnegLedger_append
      freezeLoop_nonneg1 freezeLoop_nonneg2 nonnegLedger_sortFifo)

lemma freezeStage_fresh:
  "nonnegLedger stock \<Longrightarrow>
   sumQty (fst (freezeStage item p stock)) (i_sku item) Fresh =
     sumQty stock (i_sku item) Fresh - snd (freezeStage item p stock)"
  by (simp add: freezeStage_unfold sumQty_removeEmpty nonnegLedger_append
      freezeLoop_nonneg1 freezeLoop_nonneg2 nonnegLedger_sortFifo sumQty_append
      freezeLoop_fresh freezeLoop_pushed_fresh sumQty_sortFifo)

lemma freezeStage_frozen:
  "nonnegLedger stock \<Longrightarrow>
   sumQty (fst (freezeStage item p stock)) (i_sku item) Frozen =
     sumQty stock (i_sku item) Frozen + snd (freezeStage item p stock)"
  by (simp add: freezeStage_unfold sumQty_removeEmpty nonnegLedger_append
      freezeLoop_nonneg1 freezeLoop_nonneg2 nonnegLedger_sortFifo sumQty_append
      freezeLoop_frozen_kept freezeLoop_pushed_frozen sumQty_sortFifo)

lemma freezeStage_other:
  "nonnegLedger stock \<Longrightarrow> sku \<noteq> i_sku item \<Longrightarrow>
   sumQty (fst (freezeStage item p stock)) sku st = sumQty stock sku st"
  by (simp add: freezeStage_unfold sumQty_removeEmpty nonnegLedger_append
      freezeLoop_nonneg1 freezeLoop_nonneg2 nonnegLedger_sortFifo sumQty_append
      freezeLoop_other_sku freezeLoop_pushed_other_sku sumQty_sortFifo)

subsection \<open>Donation\<close>

lemma donateStage_unfold:
  "donateStage item p stock =
     (if p_donateMaxFractionPerDay p > 0 then
        takeFromBatches (sortFifo stock) (i_sku item) Fresh
          \<lfloor>real_of_int (eligibleQty (sortFifo stock) (i_sku item) (p_donateDaysToExpireAtMost p))
             * clamp01 (p_donateMaxFractionPerDay p)\<rfloor>
      else (stock, 0))"
  by (simp add: donateStage_def Let_def)

lemma donateStage_nonneg:
  "nonnegLedger stock \<Longrightarrow> nonnegLedger (fst (donateStage item p stock))"
  by (simp add: donateStage_unfold nonnegLedger_takeFromBatches nonnegLedger_sortFifo)

lemma donateStage_fresh:
  "nonnegLedger stock \<Longrightarrow>
   sumQty (fst (donateStage item p stock)) (i_sku item) Fresh =
     sumQty stock (i_sku item) Fresh - snd (donateStage item p stock)"
  by (simp add: donateStage_unfold takeFromBatches_sum nonnegLedger_sortFifo sumQty_sortFifo)

lemma donateStage_frozen:
  "nonnegLedger stock \<Longrightarrow>
   sumQty (fst (donateStage item p stock)) sku Frozen = sumQty stock sku Frozen"
  by (simp add: donateStage_unfold takeFromBatches_other nonnegLedger_sortFifo sumQty_sortFifo)

lemma donateStage_other:
  "nonnegLedger stock \<Longrightarrow> sku \<noteq> i_sku item \<Longrightarrow>
   sumQty (fst (donateStage item p stock)) sku st = sumQty stock sku st"
  by (simp add: donateStage_unfold takeFromBatches_other nonnegLedger_sortFifo sumQty_sortFifo)

subsection \<open>Fulfillment\<close>

lemma sellStage_unfold:
  "sellStage sku d stock =
     (if max 0 (d - snd (takeFromBatches stock sku Fresh d)) > 0 then
        (fst (takeFromBatches (fst (takeFromBatches stock sku Fresh d)) sku Frozen
               (max 0 (d - snd (takeFromBatches stock sku Fresh d)))),
         snd (takeFromBatches stock sku Fresh d),
         snd (takeFromBatches (fst (takeFromBatches stock sku Fresh d)) sku Frozen
               (max 0 (d - snd (takeFromBatches stock sku Fresh d)))))
      else
        (fst (takeFromBatches stock sku Fresh d), snd (takeFromBatches stock sku Fresh d), 0))"
  by (simp add: sellStage_def Let_def split: prod.splits)

lemma sellStage_nonneg:
  "nonnegLedger stock \<Longrightarrow> nonnegLedger (fst (sellStage sku d stock))"
  by (simp add: sellStage_unfold nonnegLedger_takeFromBatches)

lemma sellStage_fresh:
  "nonnegLedger stock \<Longrightarrow>
   sumQty (fst (sellStage sku d stock)) sku Fresh =
     sumQty stock sku Fresh - fst (snd (sellStage sku d stock))"
  by (simp add: sellStage_unfold takeFromBatches_sum takeFromBatches_other
      nonnegLedger_takeFromBatches)

lemma sellStage_frozen:
  "nonnegLedger stock \<Longrightarrow>
   sumQty (fst (sellStage sku d stock)) sku Frozen =
     sumQty stock sku Frozen - snd (snd (sellStage sku d stock))"
  by (simp add: sellStage_unfold takeFromBatches_sum takeFromBatches_other
      nonnegLedger_takeFromBatches)

lemma sellStage_other:
  "nonnegLedger stock \<Longrightarrow> sku' \<noteq> sku \<Longrightarrow>
   sumQty (fst (sellStage sku d stock)) sku' st = sumQty stock sku' st"
  by (simp add: sellStage_unfold takeFromBatches_other nonnegLedger_takeFromBatches)

subsection \<open>Shrink\<close>

lemma clamp01_range: "0 \<le> clamp01 x \<and> clamp01 x \<le> 1"
  by (simp add: clamp01_def)

lemma floor_fraction_le:
  assumes "0 \<le> n"
  shows "\<lfloor>real_of_int n * clamp01 c\<rfloor> \<le> n"
proof -
  have "real_of_int n * clamp01 c \<le> real_of_int n * 1"
    using assms clamp01_range [of c] by (intro mult_left_mono) simp_all
  then have "\<lfloor>real_of_int n * clamp01 c\<rfloor> \<le> \<lfloor>real_of_int n\<rfloor>"
    by (intro floor_mono) simp
  then show ?thesis by simp
qed

lemma shrinkStage_eq:
  assumes "lost = \<lfloor>real_of_int (sumQty stock (i_sku item) Fresh + sumQty stock (i_sku item) Frozen)
                   * clamp01 (i_shrinkRate item)\<rfloor>"
    and "t1 = takeFromBatches stock (i_sku item) Fresh lost"
  shows "shrinkStage item stock =
     (if lost > 0 then
        ((if lost - snd t1 > 0
          then fst (takeFromBatches (fst t1) (i_sku item) Frozen (lost - snd t1))
          else fst t1),
         lost, snd t1, lost - snd t1)
      else (stock, lost, 0, 0))"
  unfolding assms by (simp add: shrinkStage_def Let_def split: prod.splits)

lemma shrinkStage_nonneg:
  "nonnegLedger stock \<Longrightarrow> nonnegLedger (fst (shrinkStage item stock))"
  by (simp add: shrinkStage_eq [OF refl refl] nonnegLedger_takeFromBatches)

lemma shrinkStage_other:
  "nonnegLedger stock \<Longrightarrow> sku \<noteq> i_sku item \<Longrightarrow>
   sumQty (fst (shrinkStage item stock)) sku st = sumQty stock sku st"
  by (simp add: shrinkStage_eq [OF refl refl] takeFromBatches_other nonnegLedger_takeFromBatches)

lemma shrinkStage_fresh:
  "nonnegLedger stock \<Longrightarrow>
   sumQty (fst (shrinkStage item stock)) (i_sku item) Fresh =
     sumQty stock (i_sku item) Fresh - fst (snd (snd (shrinkStage item stock)))"
  by (simp add: shrinkStage_eq [OF refl refl] takeFromBatches_other takeFromBatches_sum
      nonnegLedger_takeFromBatches)

lemma shrinkStage_frozen_parts:
  assumes nn: "nonnegLedger stock"
  shows "sumQty (fst (shrinkStage item stock)) (i_sku item) Frozen =
     sumQty stock (i_sku item) Frozen - snd (snd (snd (shrinkStage item stock))) \<and>
   fst (snd (shrinkStage item stock)) =
     fst (snd (snd (shrinkStage item stock))) + snd (snd (snd (shrinkStage item stock)))"
proof -
  define fr where "fr = sumQty stock (i_sku item) Fresh"
  define fz where "fz = sumQty stock (i_sku item) Frozen"
  define lost where "lost = \<lfloor>real_of_int (fr + fz) * clamp01 (i_shrinkRate item)\<rfloor>"
  define t1 where "t1 = takeFromBatches stock (i_sku item) Fresh lost"
  have eq: "shrinkStage item stock =
     (if lost > 0 then
        ((if lost - snd t1 > 0
          then fst (takeFromBatches (fst t1) (i_sku item) Frozen (lost - snd t1))
          else fst t1),
         lost, snd t1, lost - snd t1)
      else (stock, lost, 0, 0))"
    by (rule shrinkStage_eq) (simp_all only: lost_def fr_def fz_def t1_def)
  have f0: "0 \<le> fr" "0 \<le> fz"
    using sumQty_nonneg [OF nn] by (simp_all add: fr_def fz_def)
  have le: "lost \<le> fr + fz" unfolding lost_def using f0 by (intro floor_fraction_le) simp
  have "0 \<le> real_of_int (fr + fz) * clamp01 (i_shrinkRate item)"
    using f0 clamp01_range [of "i_shrinkRate item"] by (intro mult_nonneg_nonneg) simp_all
  then have l0: "0 \<le> lost" unfolding lost_def by simp
  have nn1: "nonnegLedger (fst t1)" unfolding t1_def using nn by (rule nonnegLedger_takeFromBatches)
  have fz1: "sumQty (fst t1) (i_sku item) Frozen = fz"
    unfolding t1_def fz_def using nn by (simp add: takeFromBatches_other)
  show ?thesis
  proof (cases "lost > 0")
    case False
    then have "lost = 0" using l0 by simp
    then show ?thesis by (simp add: eq fz_def)
  next
    case True
    have tk: "snd t1 = min lost fr"
      unfolding t1_def fr_def using nn True by (intro takeFromBatches_taken) simp_all
    show ?thesis
    proof (cases "lost - snd t1 > 0")
      case False
      then show ?thesis using True fz1 tk by (simp add: eq fz_def [symmetric])
    next
      case pos: True
      have "snd (takeFromBatches (fst t1) (i_sku item) Frozen (lost - snd t1))
          = min (lost - snd t1) (sumQty (fst t1) (i_sku item) Frozen)"
        using nn1 pos by (intro takeFromBatches_taken) simp_all
      also have "\<dots> = lost - snd t1" using fz1 tk le pos by simp
      finally have tk2: "snd (takeFromBatches (fst t1) (i_sku item) Frozen (lost - snd t1))
          = lost - snd t1" .
      have "sumQty (fst (takeFromBatches (fst t1) (i_sku item) Frozen (lost - snd t1)))
            (i_sku item) Frozen = fz - (lost - snd t1)"
        using takeFromBatches_sum [OF nn1, of "i_sku item" Frozen "lost - snd t1"] tk2 fz1
        by simp
      then show ?thesis using True pos by (simp add: eq fz_def [symmetric])
    qed
  qed
qed

subsection \<open>Aging\<close>

lemma ageStage_kept:
  "sumQty (keptBatches sku stock) sku st =
     sumQty stock sku st - sumQty (expiredBatches sku stock) sku st"
  by (induction stock) (simp_all add: keptBatches_def expiredBatches_def ageBatches_def)

lemma ageStage_other:
  "sku' \<noteq> sku \<Longrightarrow> sumQty (keptBatches sku stock) sku' st = sumQty stock sku' st"
  by (induction stock) (simp_all add: keptBatches_def ageBatches_def)

lemma ageStage_wasted:
  "sum_list (map b_qty (expiredBatches sku stock)) =
     sumQty (expiredBatches sku stock) sku Fresh + sumQty (expiredBatches sku stock) sku Frozen"
proof (induction stock)
  case Nil
  then show ?case by (simp add: expiredBatches_def ageBatches_def)
next
  case (Cons b bs)
  then show ?case
    by (cases "b_state b") (simp_all add: expiredBatches_def ageBatches_def)
qed

lemma ageStage_nonneg:
  "nonnegLedger stock \<Longrightarrow> nonnegLedger (keptBatches sku stock)"
  by (induction stock) (simp_all add: keptBatches_def ageBatches_def nonnegLedger_def)

subsection \<open>Receipt\<close>

lemma receivedBatches_frozen: "sumQty (receivedBatches items arr) sku Frozen = 0"
  by (induction arr) (simp_all split: option.splits)

lemma receivedBatches_nonneg: "nonnegLedger (receivedBatches items arr)"
  by (induction arr) (simp_all add: nonnegLedger_def split: option.splits)

lemma receiveDeliveries_nonneg:
  "nonnegLedger (inventory st) \<Longrightarrow> nonnegLedger (inventory (receiveDeliveries items st))"
  by (simp add: receiveDeliveries_def nonnegLedger_append receivedBatches_nonneg)

lemma receiveDeliveries_sum:
  "sumQty (inventory (receiveDeliveries items st)) sku s =
     sumQty (inventory st) sku s
     + sumQty (receivedBatches items (arrivingToday (pendingDeliveries st))) sku s"
  by (simp add: receiveDeliveries_def sumQty_append)

subsection \<open>The loop body\<close>

lemma upToShrink_balance:
  assumes nn: "nonnegLedger stock"
  shows "nonnegLedger (pa_inventory (upToShrink item p cfg stock rng)) \<and>
    sumQty (pa_inventory (upToShrink item p cfg stock rng)) (i_sku item) Fresh =
      sumQty stock (i_sku item) Fresh
      - pa_frozenMoved (upToShrink item p cfg stock rng)
      - pa_donated (upToShrink item p cfg stock rng)
      - pa_soldFresh (upToShrink item p cfg stock rng)
      - pa_lostFresh (upToShrink item p cfg stock rng) \<and>
    sumQty (pa_inventory (upToShrink item p cfg stock rng)) (i_sku item) Frozen =
      sumQty stock (i_sku item) Frozen
      + pa_frozenMoved (upToShrink item p cfg stock rng)
      - pa_soldFrozen (upToShrink item p cfg stock rng)
      - pa_lostFrozen (upToShrink item p cfg stock rng) \<and>
    pa_shrinkLost (upToShrink item p cfg stock rng) =
      pa_lostFresh (upToShrink item p cfg stock rng)
      + pa_lostFrozen (upToShrink item p cfg stock rng) \<and>
    (\<forall>sku st. sku \<noteq> i_sku item \<longrightarrow>
       sumQty (pa_inventory (upToShrink item p cfg stock rng)) sku st = sumQty stock sku st)"
proof -
  obtain s1 m1 where f: "freezeStage item p stock = (s1, m1)"
    by (cases "freezeStage item p stock")
  obtain s2 m2 where d: "donateStage item p s1 = (s2, m2)"
    by (cases "donateStage item p s1")
  obtain pr mult where a: "applyPricing item p (minDaysToExpireFresh item s2) = (pr, mult)"
    by (cases "applyPricing item p (minDaysToExpireFresh item s2)")
  obtain dem rng' where dm: "demandForDay item mult rng (demandNoiseStdDev cfg) = (dem, rng')"
    by (cases "demandForDay item mult rng (demandNoiseStdDev cfg)")
  obtain s3 sf sz where sl: "sellStage (i_sku item) (max 0 \<lfloor>dem\<rfloor>) s2 = (s3, sf, sz)"
    by (cases "sellStage (i_sku item) (max 0 \<lfloor>dem\<rfloor>) s2")
  obtain s4 sh lf lz where sk: "shrinkStage item s3 = (s4, sh, lf, lz)"
    by (cases "shrinkStage item s3")
  have pre: "upToShrink item p cfg stock rng =
      \<lparr>pa_inventory = s4, pa_rng = rng', pa_frozenMoved = m1,
       pa_donated = m2, pa_price = pr, pa_priceMultiplier = mult,
       pa_demandInt = max 0 \<lfloor>dem\<rfloor>, pa_soldFresh = sf, pa_soldFrozen = sz,
       pa_stockout = (if countStockouts cfg then max 0 (max 0 \<lfloor>dem\<rfloor> - sf - sz) else 0),
       pa_shrinkLost = sh, pa_lostFresh = lf, pa_lostFrozen = lz\<rparr>"
    by (simp add: upToShrink_def Let_def f d a dm sl sk)
  have n1: "nonnegLedger s1" using freezeStage_nonneg [OF nn, of item p] f by simp
  have n2: "nonnegLedger s2" using donateStage_nonneg [OF n1, of item p] d by simp
  have n3: "nonnegLedger s3" using sellStage_nonneg [OF n2, of "i_sku item" "max 0 \<lfloor>dem\<rfloor>"] sl by simp
  have n4: "nonnegLedger s4" using shrinkStage_nonneg [OF n3, of item] sk by simp
  have fresh: "sumQty s4 (i_sku item) Fresh = sumQty stock (i_sku item) Fresh - m1 - m2 - sf - lf"
    using freezeStage_fresh [OF nn, of item p] donateStage_fresh [OF n1, of item p]
      sellStage_fresh [OF n2, of "i_sku item" "max 0 \<lfloor>dem\<rfloor>"] shrinkStage_fresh [OF n3, of item]
    by (simp add: f d sl sk)
  have frozen: "sumQty s4 (i_sku item) Frozen = sumQty stock (i_sku item) Frozen + m1 - sz - lz"
    and parts: "sh = lf + lz"
    using freezeStage_frozen [OF nn, of item p] donateStage_frozen [OF n1, of item p "i_sku item"]
      sellStage_frozen [OF n2, of "i_sku item" "max 0 \<lfloor>dem\<rfloor>"]
      shrinkStage_frozen_parts [OF n3, of item]
    by (simp_all add: f d sl sk)
  have other: "sumQty s4 sku st = sumQty stock sku st" if "sku \<noteq> i_sku item" for sku st
    using freezeStage_other [OF nn that, of p st] donateStage_other [OF n1 that, of p st]
      sellStage_other [OF n2 that, of "max 0 \<lfloor>dem\<rfloor>" st] shrinkStage_other [OF n3 that, of st]
    by (simp add: f d sl sk)
  show ?thesis using n4 fresh frozen parts other by (simp add: pre)
qed

lemma skuStep_unfold:
  "skuStep item p cfg st rng =
     (\<lparr>m_sku = i_sku item, m_startingFresh = sumQty (inventory st) (i_sku item) Fresh,
       m_startingFrozen = sumQty (inventory st) (i_sku item) Frozen,
       m_price = pa_price (upToShrink item p cfg (inventory st) rng),
       m_priceMultiplier = pa_priceMultiplier (upToShrink item p cfg (inventory st) rng),
       m_demand = pa_demandInt (upToShrink item p cfg (inventory st) rng),
       m_soldFresh = pa_soldFresh (upToShrink item p cfg (inventory st) rng),
       m_soldFrozen = pa_soldFrozen (upToShrink item p cfg (inventory st) rng),
       m_stockout = pa_stockout (upToShrink item p cfg (inventory st) rng),
       m_donated = pa_donated (upToShrink item p cfg (inventory st) rng),
       m_frozenMoved = pa_frozenMoved (upToShrink item p cfg (inventory st) rng),
       m_wasted = sum_list (map b_qty
          (expiredBatches (i_sku item) (pa_inventory (upToShrink item p cfg (inventory st) rng)))),
       m_shrinkLost = pa_shrinkLost (upToShrink item p cfg (inventory st) rng),
       m_revenue =
         real_of_int (pa_soldFresh (upToShrink item p cfg (inventory st) rng))
           * pa_price (upToShrink item p cfg (inventory st) rng)
         + real_of_int (pa_soldFrozen (upToShrink item p cfg (inventory st) rng))
           * (i_basePrice item * i_frozenPriceMultiplier item),
       m_cogs =
         real_of_int (pa_soldFresh (upToShrink item p cfg (inventory st) rng)
                      + pa_soldFrozen (upToShrink item p cfg (inventory st) rng))
           * i_unitCost item,
       m_holdingCost =
         real_of_int
           (sumQty (pa_inventory (upToShrink item p cfg (inventory st) rng)) (i_sku item) Fresh
            + sumQty (pa_inventory (upToShrink item p cfg (inventory st) rng)) (i_sku item) Frozen)
           * holdingCostPerUnitPerDay cfg,
       m_wasteCost =
         real_of_int (sum_list (map b_qty
           (expiredBatches (i_sku item) (pa_inventory (upToShrink item p cfg (inventory st) rng)))))
           * wasteDisposalCostPerUnit cfg,
       m_freezeCost =
         real_of_int (pa_frozenMoved (upToShrink item p cfg (inventory st) rng))
           * i_freezeCostPerUnit item\<rparr>,
      st\<lparr>inventory :=
            keptBatches (i_sku item) (pa_inventory (upToShrink item p cfg (inventory st) rng)),
         pendingDeliveries :=
            pendingDeliveries st
            @ reorderDecision item p
                (sumQty (keptBatches (i_sku item)
                   (pa_inventory (upToShrink item p cfg (inventory st) rng))) (i_sku item) Fresh)\<rparr>,
      pa_rng (upToShrink item p cfg (inventory st) rng))"
  by (simp add: skuStep_def ageStage_def Let_def)

lemma skuStep_balance:
  assumes nn: "nonnegLedger (inventory st)"
    and step: "skuStep item p cfg st rng = (m, st', rng')"
    and pre: "pre = upToShrink item p cfg (inventory st) rng"
  shows "nonnegLedger (inventory st')"
    and "sumQty (inventory st) (i_sku item) Fresh =
      sumQty (inventory st') (i_sku item) Fresh + m_soldFresh m + m_donated m + m_frozenMoved m
      + pa_lostFresh pre + sumQty (expiredBatches (i_sku item) (pa_inventory pre)) (i_sku item) Fresh"
    and "sumQty (inventory st) (i_sku item) Frozen + m_frozenMoved m =
      sumQty (inventory st') (i_sku item) Frozen + m_soldFrozen m
      + pa_lostFrozen pre + sumQty (expiredBatches (i_sku item) (pa_inventory pre)) (i_sku item) Frozen"
    and "m_shrinkLost m = pa_lostFresh pre + pa_lostFrozen pre"
    and "m_wasted m =
      sumQty (expiredBatches (i_sku item) (pa_inventory pre)) (i_sku item) Fresh
      + sumQty (expiredBatches (i_sku item) (pa_inventory pre)) (i_sku item) Frozen"
    and "sku \<noteq> i_sku item \<Longrightarrow> sumQty (inventory st') sku s = sumQty (inventory st) sku s"
proof -
  note b = upToShrink_balance [OF nn, of item p cfg rng, folded pre]
  have inv': "inventory st' = keptBatches (i_sku item) (pa_inventory pre)"
    and sf: "m_soldFresh m = pa_soldFresh pre" and sz: "m_soldFrozen m = pa_soldFrozen pre"
    and dn: "m_donated m = pa_donated pre" and fm: "m_frozenMoved m = pa_frozenMoved pre"
    and sh: "m_shrinkLost m = pa_shrinkLost pre"
    and w: "m_wasted m = sum_list (map b_qty (expiredBatches (i_sku item) (pa_inventory pre)))"
    using step unfolding skuStep_unfold pre by auto
  show "nonnegLedger (inventory st')" using b by (simp add: inv' ageStage_nonneg)
  show "sumQty (inventory st) (i_sku item) Fresh =
      sumQty (inventory st') (i_sku item) Fresh + m_soldFresh m + m_donated m + m_frozenMoved m
      + pa_lostFresh pre + sumQty (expiredBatches (i_sku item) (pa_inventory pre)) (i_sku item) Fresh"
    using b by (simp add: inv' ageStage_kept sf dn fm)
  show "sumQty (inventory st) (i_sku item) Frozen + m_frozenMoved m =
      sumQty (inventory st') (i_sku item) Frozen + m_soldFrozen m
      + pa_lostFrozen pre + sumQty (expiredBatches (i_sku item) (pa_inventory pre)) (i_sku item) Frozen"
    using b by (simp add: inv' ageStage_kept sz fm)
  show "m_shrinkLost m = pa_lostFresh pre + pa_lostFrozen pre" using b by (simp add: sh)
  show "m_wasted m =
      sumQty (expiredBatches (i_sku item) (pa_inventory pre)) (i_sku item) Fresh
      + sumQty (expiredBatches (i_sku item) (pa_inventory pre)) (i_sku item) Frozen"
    by (simp add: w ageStage_wasted)
  show "sumQty (inventory st') sku s = sumQty (inventory st) sku s" if "sku \<noteq> i_sku item"
    using b that by (simp add: inv' ageStage_other)
qed

lemma skuStep_pending:
  "skuStep item p cfg st rng = (m, st', rng') \<Longrightarrow>
   pendingDeliveries st' =
     pendingDeliveries st
     @ reorderDecision item p (sumQty (inventory st') (i_sku item) Fresh)"
  unfolding skuStep_unfold by auto

lemma skuLoop_frame:
  assumes "skuLoop items policy cfg st rng tot = Inr (ms, st', rng', tot')"
    and "nonnegLedger (inventory st)"
  shows "nonnegLedger (inventory st') \<and>
    (\<forall>sku s. sku \<notin> i_sku ` set items \<longrightarrow>
       sumQty (inventory st') sku s = sumQty (inventory st) sku s)"
  using assms
proof (induction items arbitrary: st rng tot ms)
  case Nil
  then show ?case by simp
next
  case (Cons item items)
  from Cons.prems(1) obtain p where p: "perSku policy (i_sku item) = Some p"
    by (cases "perSku policy (i_sku item)") simp_all
  obtain m st1 rng1 where step: "skuStep item p cfg st rng = (m, st1, rng1)"
    by (cases "skuStep item p cfg st rng")
  from Cons.prems(1) p step obtain ms1 where
    rest: "skuLoop items policy cfg st1 rng1 (addTotals tot m) = Inr (ms1, st', rng', tot')"
    by (auto split: sum.splits)
  have n1: "nonnegLedger (inventory st1)"
    using Cons.prems(2) step refl by (rule skuStep_balance(1))
  have o1: "sumQty (inventory st1) sku s = sumQty (inventory st) sku s" if "sku \<noteq> i_sku item" for sku s
    using Cons.prems(2) step refl that by (rule skuStep_balance(6))
  show ?case using Cons.IH [OF rest n1] o1 by simp
qed

lemma skuLoop_append:
  "skuLoop (xs @ ys) policy cfg st rng tot =
     (case skuLoop xs policy cfg st rng tot of
        Inl e \<Rightarrow> Inl e
      | Inr (ms1, st1, rng1, tot1) \<Rightarrow>
          (case skuLoop ys policy cfg st1 rng1 tot1 of
             Inl e \<Rightarrow> Inl e
           | Inr (ms2, st2, rng2, tot2) \<Rightarrow> Inr (ms1 @ ms2, st2, rng2, tot2)))"
proof (induction xs arbitrary: st rng tot)
  case Nil
  then show ?case by (simp split: sum.splits)
next
  case (Cons x xs)
  show ?case
  proof (cases "perSku policy (i_sku x)")
    case None
    then show ?thesis by simp
  next
    case (Some p)
    obtain m st1 rng1 where step: "skuStep x p cfg st rng = (m, st1, rng1)"
      by (cases "skuStep x p cfg st rng")
    show ?thesis
      by (simp add: Some step Cons.IH split: sum.splits prod.splits)
  qed
qed

lemma ensurePolicyComplete_ok:
  "ensurePolicyComplete items policy = Inr u \<Longrightarrow> item \<in> set items \<Longrightarrow>
   \<exists>p. perSku policy (i_sku item) = Some p"
  by (induction items) (auto split: option.splits)

lemma skuLoop_total:
  "ensurePolicyComplete items policy = Inr u \<Longrightarrow>
   \<exists>r. skuLoop items policy cfg st rng tot = Inr r"
proof (induction items arbitrary: st rng tot)
  case Nil
  then show ?case by simp
next
  case (Cons item items)
  from Cons.prems obtain p where p: "perSku policy (i_sku item) = Some p"
    and rest: "ensurePolicyComplete items policy = Inr u"
    by (auto split: option.splits)
  obtain m st1 rng1 where step: "skuStep item p cfg st rng = (m, st1, rng1)"
    by (cases "skuStep item p cfg st rng")
  from Cons.IH [OF rest, of st1 rng1 "addTotals tot m"]
  show ?case by (auto simp: p step)
qed

lemma dayStep_total:
  "ensurePolicyComplete items policy = Inr u \<Longrightarrow>
   \<exists>r. dayStep items policy cfg day st rng tot = Inr r"
  using skuLoop_total [of items policy u cfg "receiveDeliveries items st" rng tot]
  by (auto simp: dayStep_def)

lemma daysLoop_total:
  "ensurePolicyComplete items policy = Inr u \<Longrightarrow>
   \<exists>r. daysLoop n day items policy cfg st rng tot = Inr r"
proof (induction n arbitrary: day st rng tot)
  case 0
  then show ?case by simp
next
  case (Suc n)
  from dayStep_total [OF Suc.prems, of cfg day st rng tot]
  obtain dm st1 rng1 tot1 where d: "dayStep items policy cfg day st rng tot = Inr (dm, st1, rng1, tot1)"
    by (metis prod_cases4)
  from Suc.IH [OF Suc.prems, of "day + 1" st1 rng1 tot1]
  show ?case by (auto simp: d)
qed

subsection \<open>The delivery queue\<close>

lemma skuLoop_pending_mono:
  assumes "skuLoop items policy cfg st rng tot = Inr (ms, st', rng', tot')"
    and "x \<in> set (pendingDeliveries st)"
  shows "x \<in> set (pendingDeliveries st')"
  using assms
proof (induction items arbitrary: st rng tot ms)
  case Nil
  then show ?case by simp
next
  case (Cons item items)
  from Cons.prems(1) obtain p where p: "perSku policy (i_sku item) = Some p"
    by (cases "perSku policy (i_sku item)") simp_all
  obtain m st1 rng1 where step: "skuStep item p cfg st rng = (m, st1, rng1)"
    by (cases "skuStep item p cfg st rng")
  from Cons.prems(1) p step obtain ms1 where
    rest: "skuLoop items policy cfg st1 rng1 (addTotals tot m) = Inr (ms1, st', rng', tot')"
    by (auto split: sum.splits)
  have "x \<in> set (pendingDeliveries st1)"
    using skuStep_pending [OF step] Cons.prems(2) by simp
  then show ?case using Cons.IH [OF rest] by simp
qed

lemma stillPending_tick:
  "x \<in> set pend \<Longrightarrow> 1 < d_arrivingInDays x \<Longrightarrow>
   x\<lparr>d_arrivingInDays := d_arrivingInDays x - 1\<rparr> \<in> set (stillPending pend)"
  by (induction pend) (auto simp: stillPending_def)

lemma stillPending_positive:
  "y \<in> set (stillPending pend) \<Longrightarrow> 0 < d_arrivingInDays y"
  by (simp add: stillPending_def)

lemma arrivingToday_member:
  "x \<in> set pend \<Longrightarrow> d_arrivingInDays x \<le> 1 \<Longrightarrow>
   x\<lparr>d_arrivingInDays := d_arrivingInDays x - 1\<rparr> \<in> set (arrivingToday pend)"
  by (induction pend) (auto simp: arrivingToday_def)

lemma receivedBatches_member:
  "a \<in> set arriving \<Longrightarrow> find (\<lambda>it. i_sku it = d_sku a) items = Some item \<Longrightarrow>
   \<lparr>b_sku = d_sku a, b_qty = max 0 (d_qty a),
    b_daysToExpire = max 1 (round (i_shelfLifeDays item)), b_state = Fresh\<rparr>
     \<in> set (receivedBatches items arriving)"
  by (induction arriving) (auto split: option.splits)

lemma dayStep_tick:
  assumes "dayStep items policy cfg day st rng tot = Inr (dm, st', rng', tot')"
    and "x \<in> set (pendingDeliveries st)" and "1 < d_arrivingInDays x"
  shows "x\<lparr>d_arrivingInDays := d_arrivingInDays x - 1\<rparr> \<in> set (pendingDeliveries st')"
proof -
  from assms(1) obtain ms stL where
    loop: "skuLoop items policy cfg (receiveDeliveries items st) rng tot = Inr (ms, stL, rng', tot')"
    and st': "st' = stL\<lparr>s_day := s_day stL + 1\<rparr>"
    by (auto simp: dayStep_def split: sum.splits)
  have "x\<lparr>d_arrivingInDays := d_arrivingInDays x - 1\<rparr>
          \<in> set (pendingDeliveries (receiveDeliveries items st))"
    using stillPending_tick [OF assms(2,3)] by (simp add: receiveDeliveries_def)
  then show ?thesis using skuLoop_pending_mono [OF loop] by (simp add: st')
qed

lemma daysLoop_countdown:
  assumes "daysLoop k day items policy cfg st rng tot = Inr (dms, st', rng', tot')"
    and "x \<in> set (pendingDeliveries st)" and "int k < max 1 (d_arrivingInDays x)"
  shows "x\<lparr>d_arrivingInDays := d_arrivingInDays x - int k\<rparr> \<in> set (pendingDeliveries st')"
  using assms
proof (induction k arbitrary: day st rng tot dms x)
  case 0
  then show ?case by simp
next
  case (Suc k)
  from Suc.prems(1) obtain dm st1 rng1 tot1 dms1 where
    d: "dayStep items policy cfg day st rng tot = Inr (dm, st1, rng1, tot1)"
    and r: "daysLoop k (day + 1) items policy cfg st1 rng1 tot1 = Inr (dms1, st', rng', tot')"
    by (auto split: sum.splits)
  have big: "1 < d_arrivingInDays x" using Suc.prems(3) by simp
  let ?x1 = "x\<lparr>d_arrivingInDays := d_arrivingInDays x - 1\<rparr>"
  have m1: "?x1 \<in> set (pendingDeliveries st1)" using d Suc.prems(2) big by (rule dayStep_tick)
  have lt: "int k < max 1 (d_arrivingInDays ?x1)" using Suc.prems(3) by simp
  have e: "?x1\<lparr>d_arrivingInDays := d_arrivingInDays ?x1 - int k\<rparr>
      = x\<lparr>d_arrivingInDays := d_arrivingInDays x - int (Suc k)\<rparr>"
    by (simp add: algebra_simps)
  have "?x1\<lparr>d_arrivingInDays := d_arrivingInDays ?x1 - int k\<rparr> \<in> set (pendingDeliveries st')"
    using r m1 lt by (rule Suc.IH)
  then show ?case unfolding e .
qed

lemma receiveDeliveries_arrival:
  assumes "x \<in> set (pendingDeliveries st)" and "d_arrivingInDays x \<le> 1"
    and "find (\<lambda>it. i_sku it = d_sku x) items = Some item"
  shows "\<lparr>b_sku = d_sku x, b_qty = max 0 (d_qty x),
          b_daysToExpire = max 1 (round (i_shelfLifeDays item)), b_state = Fresh\<rparr>
           \<in> set (inventory (receiveDeliveries items st)) \<and>
         x\<lparr>d_arrivingInDays := d_arrivingInDays x - 1\<rparr>
           \<notin> set (pendingDeliveries (receiveDeliveries items st))"
proof -
  let ?a = "x\<lparr>d_arrivingInDays := d_arrivingInDays x - 1\<rparr>"
  have "?a \<in> set (arrivingToday (pendingDeliveries st))"
    using assms(1,2) by (rule arrivingToday_member)
  moreover have "find (\<lambda>it. i_sku it = d_sku ?a) items = Some item" using assms(3) by simp
  ultimately have "\<lparr>b_sku = d_sku ?a, b_qty = max 0 (d_qty ?a),
      b_daysToExpire = max 1 (round (i_shelfLifeDays item)), b_state = Fresh\<rparr>
        \<in> set (receivedBatches items (arrivingToday (pendingDeliveries st)))"
    by (rule receivedBatches_member)
  then have in_inv: "\<lparr>b_sku = d_sku x, b_qty = max 0 (d_qty x),
          b_daysToExpire = max 1 (round (i_shelfLifeDays item)), b_state = Fresh\<rparr>
           \<in> set (inventory (receiveDeliveries items st))"
    by (simp add: receiveDeliveries_def)
  have "?a \<notin> set (stillPending (pendingDeliveries st))"
    using stillPending_positive [of ?a "pendingDeliveries st"] assms(2) by auto
  then show ?thesis using in_inv by (simp add: receiveDeliveries_def)
qed

lemma reorderDecision_unfold:
  "reorderDecision item p fresh =
     (if real_of_int fresh \<le> p_reorderPoint p \<and> fresh < max 0 (round (p_orderUpTo p)) then
        [\<lparr>d_sku = i_sku item, d_qty = max 0 (round (p_orderUpTo p)) - fresh,
          d_arrivingInDays = max 0 (round (i_leadTimeDays item))\<rparr>]
      else [])"
  by (auto simp: reorderDecision_def Let_def)

subsection \<open>Demand without noise\<close>

lemma rngNormal_noiseless: "rngNormal t mean 0 = (mean, t + 2 * 0x6d2b79f5)"
  by (simp add: rngNormal_def rngNext_def Let_def split: prod.splits)

lemma demandForDay_noiseless:
  "demandForDay item mult rng 0 =
     (max 0 (max 0 (i_baseDailyDemand item)
             * (max (5 / 100) mult) powr (i_priceElasticity item)),
      rng + 2 * 0x6d2b79f5)"
  by (simp add: demandForDay_def rngNormal_noiseless Let_def)

subsection \<open>The examples, evaluated\<close>

lemma ex_upToShrink:
  "upToShrink exItem (exItemPolicy r u) exConfig (inventory (exState d)) rng =
     \<lparr>pa_inventory = [\<lparr>b_sku = ''X'', b_qty = 50, b_daysToExpire = d, b_state = Fresh\<rparr>],
      pa_rng = rng + 2 * 0x6d2b79f5, pa_frozenMoved = 0, pa_donated = 0, pa_price = 2,
      pa_priceMultiplier = 1, pa_demandInt = 50, pa_soldFresh = 50, pa_soldFrozen = 0,
      pa_stockout = 0, pa_shrinkLost = 0, pa_lostFresh = 0, pa_lostFrozen = 0\<rparr>"
  by (simp add: upToShrink_def exItem_def exItemPolicy_def exConfig_def exState_def
      freezeStage_def donateStage_def applyPricing_def minDaysToExpireFresh_def
      demandForDay_noiseless sellStage_def takeFromBatches_def sortFifo_def takeLoop_Cons
      removeEmpty_def shrinkStage_def clamp01_def Let_def)

lemma ex_skuStep_order:
  "skuStep exItem (exItemPolicy 60 100) exConfig (exState 5) rng =
     (exMetrics 0,
      \<lparr>s_day = 0,
       inventory = [\<lparr>b_sku = ''X'', b_qty = 50, b_daysToExpire = 4, b_state = Fresh\<rparr>],
       pendingDeliveries = [\<lparr>d_sku = ''X'', d_qty = 50, d_arrivingInDays = 2\<rparr>]\<rparr>,
      rng + 2 * 0x6d2b79f5)"
  unfolding skuStep_unfold ex_upToShrink
  by (simp add: exItem_def exItemPolicy_def exConfig_def exState_def exMetrics_def
      expiredBatches_def keptBatches_def ageBatches_def reorderDecision_def)

lemma ex_skuStep_no_order:
  "skuStep exItem (exItemPolicy 60 40) exConfig (exState 5) rng =
     (exMetrics 0,
      \<lparr>s_day = 0,
       inventory = [\<lparr>b_sku = ''X'', b_qty = 50, b_daysToExpire = 4, b_state = Fresh\<rparr>],
       pendingDeliveries = []\<rparr>,
      rng + 2 * 0x6d2b79f5)"
  unfolding skuStep_unfold ex_upToShrink
  by (simp add: exItem_def exItemPolicy_def exConfig_def exState_def exMetrics_def
      expiredBatches_def keptBatches_def ageBatches_def reorderDecision_def)

lemma ex_skuStep_expiring:
  "skuStep exItem (exItemPolicy 60 100) exConfig (exState 1) rng =
     (exMetrics 50,
      \<lparr>s_day = 0, inventory = [],
       pendingDeliveries = [\<lparr>d_sku = ''X'', d_qty = 100, d_arrivingInDays = 2\<rparr>]\<rparr>,
      rng + 2 * 0x6d2b79f5)"
  unfolding skuStep_unfold ex_upToShrink
  by (simp add: exItem_def exItemPolicy_def exConfig_def exState_def exMetrics_def
      expiredBatches_def keptBatches_def ageBatches_def reorderDecision_def)

lemma ex_receive: "receiveDeliveries items (exState d) = exState d"
  by (simp add: receiveDeliveries_def exState_def arrivingToday_def stillPending_def)

subsection \<open>The generator\<close>




subsection \<open>The evaluator\<close>

lemma jsDiv_Some: "d \<noteq> 0 \<Longrightarrow> jsDiv n d = Some (n / d)"
  by (simp add: jsDiv_def)


lemma logistic_range: "0 \<le> 1 / (1 + exp x) \<and> 1 / (1 + exp (x::real)) \<le> 1"
proof -
  have p: "0 < 1 + exp x" by (simp add: add_pos_pos)
  have "1 / (1 + exp x) \<le> 1" using p by (simp add: divide_le_eq_1_pos)
  moreover have "0 \<le> 1 / (1 + exp x)" using p by simp
  ultimately show ?thesis by simp
qed

lemma clamp01_id: "0 \<le> y \<Longrightarrow> y \<le> 1 \<Longrightarrow> clamp01 y = y"
  by (simp add: clamp01_def)

lemma logistic_denominator: "1 + exp (x::real) \<noteq> 0"
proof -
  have "0 < 1 + exp x" by (simp add: add_pos_pos)
  then show ?thesis by simp
qed

lemma normalizePositive_logistic:
  "0 < target \<Longrightarrow> normalizePositive v target = Some (1 / (1 + exp (- 3 * (v / target - 1))))"
  using logistic_range [of "- 3 * (v / target - 1)"]
  by (simp add: normalizePositive_def jsDiv_Some logistic_denominator clamp01_id)

lemma normalizeLowerIsBetter_logistic:
  "0 < target \<Longrightarrow>
   normalizeLowerIsBetter v target = Some (1 / (1 + exp (3 * (v / target - 1))))"
  using logistic_range [of "3 * (v / target - 1)"]
  by (simp add: normalizeLowerIsBetter_def jsDiv_Some logistic_denominator clamp01_id)



subsection \<open>The driver\<close>


lemma ensurePolicyComplete_cases:
  "(\<exists>sku. ensurePolicyComplete items policy = Inl (PolicyMissing sku)) \<or>
   ensurePolicyComplete items policy = Inr ()"
  by (induction items) (auto split: option.splits)

lemma initialBatches_total:
  "ensurePolicyComplete items policy = Inr u \<Longrightarrow> \<exists>bs. initialBatches items policy = Inr bs"
  by (induction items) (auto simp: Let_def split: option.splits)

lemma runFrom_total:
  "ensurePolicyComplete items policy = Inr u \<Longrightarrow> \<exists>r. runFrom items policy cfg st = Inr r"
  using daysLoop_total [of items policy u "nat (c_days cfg)" 0 cfg st "createRng (c_seed cfg)" zeroTotals]
  by (auto simp: runFrom_def)

lemma simulateInventory_total:
  assumes "ensurePolicyComplete items policy = Inr u"
    and "\<forall>a. initialState = Some a \<longrightarrow> a < length heap"
  shows "\<exists>res. fst (simulateInventory items policy cfg initialState heap) = Inr res"
proof -
  obtain bs where bs: "initialBatches items policy = Inr bs"
    using initialBatches_total [OF assms(1)] by blast
  show ?thesis
  proof (cases initialState)
    case None
    obtain r where "runFrom items policy cfg \<lparr>s_day = 0, inventory = bs, pendingDeliveries = []\<rparr> = Inr r"
      using runFrom_total [OF assms(1)] by blast
    then show ?thesis using assms(1) bs None
      by (cases r) (simp add: simulateInventory_def createInitialState_def)
  next
    case (Some a)
    obtain r where "runFrom items policy cfg (heap ! a) = Inr r"
      using runFrom_total [OF assms(1)] by blast
    then show ?thesis using assms Some
      by (cases r) (simp add: simulateInventory_def readState_def structuredClone_def)
  qed
qed

lemma dayStep_single:
  assumes "perSku policy (i_sku item) = Some p"
    and "skuStep item p cfg (receiveDeliveries [item] st) rng = (m, st', rng')"
  shows "dayStep [item] policy cfg day st rng tot =
     Inr (\<lparr>dm_day = day, dm_perSku = [m]\<rparr>, st'\<lparr>s_day := s_day st' + 1\<rparr>, rng', addTotals tot m)"
  using assms by (simp add: dayStep_def)


lemma ex_runFrom_expiring:
  "runFrom [exItem] (exPolicy 60 100) exConfig (exState 1) =
     Inr (\<lparr>sr_config = exConfig, sr_policy = exPolicy 60 100, sr_items = [exItem],
            sr_days = [\<lparr>dm_day = 0, dm_perSku = [exMetrics 50]\<rparr>],
            sr_totals = (addTotals zeroTotals (exMetrics 50))\<lparr>t_profit := - 50\<rparr>\<rparr>,
          \<lparr>s_day = 1, inventory = [],
           pendingDeliveries = [\<lparr>d_sku = ''X'', d_qty = 100, d_arrivingInDays = 2\<rparr>]\<rparr>)"
proof -
  have p: "perSku (exPolicy 60 100) (i_sku exItem) = Some (exItemPolicy 60 100)"
    by (simp add: exPolicy_def exItem_def)
  have d: "dayStep [exItem] (exPolicy 60 100) exConfig 0 (exState 1) (createRng 42) zeroTotals =
      Inr (\<lparr>dm_day = 0, dm_perSku = [exMetrics 50]\<rparr>,
           \<lparr>s_day = 1, inventory = [],
            pendingDeliveries = [\<lparr>d_sku = ''X'', d_qty = 100, d_arrivingInDays = 2\<rparr>]\<rparr>,
           createRng 42 + 2 * 0x6d2b79f5, addTotals zeroTotals (exMetrics 50))"
    using dayStep_single [OF p, of exConfig "exState 1" "createRng 42"] ex_skuStep_expiring
    by (simp add: ex_receive)
  have n: "nat (c_days exConfig) = Suc 0" and sd: "c_seed exConfig = 42"
    by (simp_all add: exConfig_def)
  have prof: "t_revenue (addTotals zeroTotals (exMetrics 50)) - t_cogs (addTotals zeroTotals (exMetrics 50))
      - t_holdingCost (addTotals zeroTotals (exMetrics 50))
      - t_wasteCost (addTotals zeroTotals (exMetrics 50))
      - t_freezeCost (addTotals zeroTotals (exMetrics 50)) = - 50"
    by (simp add: addTotals_def zeroTotals_def exMetrics_def)
  show ?thesis
    unfolding runFrom_def n sd by (simp add: d prof)
qed


lemma ex_policy_complete: "ensurePolicyComplete [exItem] (exPolicy r u) = Inr ()"
  by (simp add: exItem_def exPolicy_def)



subsection \<open>The ledger invariant along a run\<close>

lemma initialBatches_nonneg:
  "initialBatches items policy = Inr bs \<Longrightarrow> nonnegLedger bs"
proof (induction items arbitrary: bs)
  case Nil
  then show ?case by (simp add: nonnegLedger_def)
next
  case (Cons item items)
  then show ?case
    by (auto simp: nonnegLedger_def Let_def split: option.splits sum.splits if_splits)
qed

lemma dayStep_nonneg:
  assumes "dayStep items policy cfg day st rng tot = Inr (dm, st', rng', tot')"
    and "nonnegLedger (inventory st)"
  shows "nonnegLedger (inventory st')"
proof -
  from assms(1) obtain ms stL where
    loop: "skuLoop items policy cfg (receiveDeliveries items st) rng tot = Inr (ms, stL, rng', tot')"
    and st': "st' = stL\<lparr>s_day := s_day stL + 1\<rparr>"
    by (auto simp: dayStep_def split: sum.splits)
  have "nonnegLedger (inventory (receiveDeliveries items st))"
    using assms(2) by (rule receiveDeliveries_nonneg)
  then have "nonnegLedger (inventory stL)" using skuLoop_frame [OF loop] by simp
  then show ?thesis by (simp add: st')
qed

lemma daysLoop_nonneg:
  assumes "daysLoop n day items policy cfg st rng tot = Inr (dms, st', rng', tot')"
    and "nonnegLedger (inventory st)"
  shows "nonnegLedger (inventory st')"
  using assms
proof (induction n arbitrary: day st rng tot dms)
  case 0
  then show ?case by simp
next
  case (Suc n)
  from Suc.prems(1) obtain dm st1 rng1 tot1 dms1 where
    d: "dayStep items policy cfg day st rng tot = Inr (dm, st1, rng1, tot1)"
    and r: "daysLoop n (day + 1) items policy cfg st1 rng1 tot1 = Inr (dms1, st', rng', tot')"
    by (auto split: sum.splits)
  have "nonnegLedger (inventory st1)" using d Suc.prems(2) by (rule dayStep_nonneg)
  with r show ?case by (rule Suc.IH)
qed

subsection \<open>Where the recorded metrics come from\<close>

lemma skuLoop_metrics:
  assumes "skuLoop items policy cfg st rng tot = Inr (ms, st', rng', tot')" and "m \<in> set ms"
  shows "\<exists>item p stI rngI. item \<in> set items \<and> perSku policy (i_sku item) = Some p \<and>
           m = fst (skuStep item p cfg stI rngI)"
  using assms
proof (induction items arbitrary: st rng tot ms)
  case Nil
  then show ?case by simp
next
  case (Cons item items)
  from Cons.prems(1) obtain p where p: "perSku policy (i_sku item) = Some p"
    by (cases "perSku policy (i_sku item)") simp_all
  obtain m0 st1 rng1 where step: "skuStep item p cfg st rng = (m0, st1, rng1)"
    by (cases "skuStep item p cfg st rng")
  from Cons.prems(1) p step obtain ms1 where
    rest: "skuLoop items policy cfg st1 rng1 (addTotals tot m0) = Inr (ms1, st', rng', tot')"
    and ms: "ms = m0 # ms1"
    by (auto split: sum.splits)
  show ?case
  proof (cases "m = m0")
    case True
    have "m = fst (skuStep item p cfg st rng)" using True step by simp
    then show ?thesis using p by (intro exI [of _ item] exI [of _ p] exI [of _ st] exI [of _ rng]) simp
  next
    case False
    then have "m \<in> set ms1" using Cons.prems(2) ms by simp
    from Cons.IH [OF rest this] show ?thesis by auto
  qed
qed

lemma daysLoop_metrics:
  assumes "daysLoop n day items policy cfg st rng tot = Inr (dms, st', rng', tot')"
    and "dm \<in> set dms" and "m \<in> set (dm_perSku dm)"
  shows "\<exists>item p stI rngI. item \<in> set items \<and> perSku policy (i_sku item) = Some p \<and>
           m = fst (skuStep item p cfg stI rngI)"
  using assms
proof (induction n arbitrary: day st rng tot dms)
  case 0
  then show ?case by simp
next
  case (Suc n)
  from Suc.prems(1) obtain dm0 st1 rng1 tot1 dms1 where
    d: "dayStep items policy cfg day st rng tot = Inr (dm0, st1, rng1, tot1)"
    and r: "daysLoop n (day + 1) items policy cfg st1 rng1 tot1 = Inr (dms1, st', rng', tot')"
    and dms: "dms = dm0 # dms1"
    by (auto split: sum.splits)
  show ?case
  proof (cases "dm = dm0")
    case True
    from d obtain ms stL where
      loop: "skuLoop items policy cfg (receiveDeliveries items st) rng tot = Inr (ms, stL, rng1, tot1)"
      and dm0: "dm0 = \<lparr>dm_day = day, dm_perSku = ms\<rparr>"
      by (auto simp: dayStep_def split: sum.splits)
    have "m \<in> set ms" using Suc.prems(3) True dm0 by simp
    with loop show ?thesis by (rule skuLoop_metrics)
  next
    case False
    then have "dm \<in> set dms1" using Suc.prems(2) dms by simp
    with r show ?thesis using Suc.prems(3) by (rule Suc.IH)
  qed
qed

section \<open>The claims\<close>

text \<open>
  C1 (amended). Every per-SKU metrics record of every day of a run is the record of one
  execution of the loop body, and the holding cost it holds is the on-hand quantity of
  the SKU, fresh plus frozen, measured after shrink and before the aging stage,
  multiplied by \<open>holdingCostPerUnitPerDay\<close>. Stated on the stock that the aging stage
  leaves, it is that on-hand quantity plus the units wasted that day, multiplied by the
  rate: the batches that expire that night are still charged.
\<close>

theorem holdingCost_on_stock_before_aging:
  assumes "runFrom items policy cfg st0 = Inr (res, stEnd)"
    and "dm \<in> set (sr_days res)" and "m \<in> set (dm_perSku dm)"
  shows "\<exists>item p st rng.
     item \<in> set items \<and> perSku policy (i_sku item) = Some p \<and>
     m = fst (skuStep item p cfg st rng) \<and>
     m_holdingCost m =
       real_of_int
         (sumQty (pa_inventory (upToShrink item p cfg (inventory st) rng)) (i_sku item) Fresh
          + sumQty (pa_inventory (upToShrink item p cfg (inventory st) rng)) (i_sku item) Frozen)
       * holdingCostPerUnitPerDay cfg \<and>
     m_holdingCost m =
       real_of_int
         (sumQty (inventory (fst (snd (skuStep item p cfg st rng)))) (i_sku item) Fresh
          + sumQty (inventory (fst (snd (skuStep item p cfg st rng)))) (i_sku item) Frozen
          + m_wasted m)
       * holdingCostPerUnitPerDay cfg"
proof -
  from assms(1) obtain dms rng' tot' where
    run: "daysLoop (nat (c_days cfg)) 0 items policy cfg st0 (createRng (c_seed cfg)) zeroTotals
            = Inr (dms, stEnd, rng', tot')"
    and res: "sr_days res = dms"
    by (auto simp: runFrom_def split: sum.splits)
  have "dm \<in> set dms" using assms(2) res by simp
  from daysLoop_metrics [OF run this assms(3)] obtain item p st rng where
    i: "item \<in> set items" and p: "perSku policy (i_sku item) = Some p"
    and m: "m = fst (skuStep item p cfg st rng)"
    by blast
  have h1: "m_holdingCost m =
       real_of_int
         (sumQty (pa_inventory (upToShrink item p cfg (inventory st) rng)) (i_sku item) Fresh
          + sumQty (pa_inventory (upToShrink item p cfg (inventory st) rng)) (i_sku item) Frozen)
       * holdingCostPerUnitPerDay cfg"
    unfolding m by (simp add: skuStep_unfold)
  have h2: "m_holdingCost m =
       real_of_int
         (sumQty (inventory (fst (snd (skuStep item p cfg st rng)))) (i_sku item) Fresh
          + sumQty (inventory (fst (snd (skuStep item p cfg st rng)))) (i_sku item) Frozen
          + m_wasted m)
       * holdingCostPerUnitPerDay cfg"
    unfolding m by (simp add: skuStep_unfold ageStage_kept ageStage_wasted)
  show ?thesis using i p m h1 h2 by blast
qed

text \<open>
  A one-day run of the example store whose batch expires that day: the 50 units left
  after the sales are charged and then wasted.
\<close>

theorem holdingCost_on_stock_before_aging_witness:
  "runFrom [exItem] (exPolicy 60 100) exConfig (exState 1) =
     Inr (\<lparr>sr_config = exConfig, sr_policy = exPolicy 60 100, sr_items = [exItem],
            sr_days = [\<lparr>dm_day = 0, dm_perSku = [exMetrics 50]\<rparr>],
            sr_totals = (addTotals zeroTotals (exMetrics 50))\<lparr>t_profit := - 50\<rparr>\<rparr>,
          \<lparr>s_day = 1, inventory = [],
           pendingDeliveries = [\<lparr>d_sku = ''X'', d_qty = 100, d_arrivingInDays = 2\<rparr>]\<rparr>) \<and>
   (\<exists>item p st rng.
      item \<in> set [exItem] \<and> perSku (exPolicy 60 100) (i_sku item) = Some p \<and>
      exMetrics 50 = fst (skuStep item p exConfig st rng) \<and>
      m_holdingCost (exMetrics 50) =
        real_of_int
          (sumQty (inventory (fst (snd (skuStep item p exConfig st rng)))) (i_sku item) Fresh
           + sumQty (inventory (fst (snd (skuStep item p exConfig st rng)))) (i_sku item) Frozen
           + m_wasted (exMetrics 50))
        * holdingCostPerUnitPerDay exConfig)"
proof -
  note t = holdingCost_on_stock_before_aging [OF ex_runFrom_expiring,
      of "\<lparr>dm_day = 0, dm_perSku = [exMetrics 50]\<rparr>" "exMetrics 50"]
  have "\<exists>item p st rng.
      item \<in> set [exItem] \<and> perSku (exPolicy 60 100) (i_sku item) = Some p \<and>
      exMetrics 50 = fst (skuStep item p exConfig st rng) \<and>
      m_holdingCost (exMetrics 50) =
        real_of_int
          (sumQty (inventory (fst (snd (skuStep item p exConfig st rng)))) (i_sku item) Fresh
           + sumQty (inventory (fst (snd (skuStep item p exConfig st rng)))) (i_sku item) Frozen
           + m_wasted (exMetrics 50))
        * holdingCostPerUnitPerDay exConfig"
    using t by simp blast
  then show ?thesis using ex_runFrom_expiring by simp
qed

text \<open>
  C1 as stated fails: a batch of 100 units with one day left, 50 of them sold. The aging
  stage removes the other 50, so nothing is on hand once it is done, and the holding cost
  recorded is 50 times the rate.
\<close>

theorem holdingCost_after_aging_counterexample:
  "m_holdingCost (fst (skuStep exItem (exItemPolicy 60 100) exConfig (exState 1) 0)) \<noteq>
     real_of_int
       (sumQty (inventory (fst (snd (skuStep exItem (exItemPolicy 60 100) exConfig (exState 1) 0))))
          ''X'' Fresh
        + sumQty (inventory (fst (snd (skuStep exItem (exItemPolicy 60 100) exConfig (exState 1) 0))))
          ''X'' Frozen)
     * holdingCostPerUnitPerDay exConfig"
  unfolding ex_skuStep_expiring by (simp add: exMetrics_def exConfig_def)

text \<open>
  C2. One day of a catalog with distinct SKUs, on a ledger whose quantities are not
  negative. The day is split at one item: the items before it, the item, the items
  after it. For that item's SKU, the fresh quantity at the start of the day plus the units
  received from deliveries equals the fresh quantity at the end of the day plus the units
  sold fresh, donated, moved to frozen, lost to shrink from fresh stock and wasted from
  fresh stock; for the frozen pool, the quantity at the start plus the units moved in
  equals the quantity at the end plus the units sold frozen, lost to shrink and wasted.
  The recorded shrink and waste are the sums of their fresh and frozen parts.
\<close>

theorem conservation_per_sku_per_day:
  assumes dist: "distinct (map i_sku (xs @ item # ys))"
    and nn: "nonnegLedger (inventory st)"
    and before: "skuLoop xs policy cfg (receiveDeliveries (xs @ item # ys) st) rng tot
                   = Inr (msA, stA, rngA, totA)"
    and pol: "perSku policy (i_sku item) = Some p"
    and step: "skuStep item p cfg stA rngA = (m, stB, rngB)"
    and after: "skuLoop ys policy cfg stB rngB (addTotals totA m) = Inr (msC, stC, rngC, totC)"
  shows
    "dayStep (xs @ item # ys) policy cfg day st rng tot =
       Inr (\<lparr>dm_day = day, dm_perSku = msA @ m # msC\<rparr>, stC\<lparr>s_day := s_day stC + 1\<rparr>, rngC, totC) \<and>
     sumQty (inventory st) (i_sku item) Fresh
       + sumQty (receivedBatches (xs @ item # ys) (arrivingToday (pendingDeliveries st)))
           (i_sku item) Fresh
       = sumQty (inventory stC) (i_sku item) Fresh
         + m_soldFresh m + m_donated m + m_frozenMoved m
         + pa_lostFresh (upToShrink item p cfg (inventory stA) rngA)
         + sumQty (expiredBatches (i_sku item)
                     (pa_inventory (upToShrink item p cfg (inventory stA) rngA)))
             (i_sku item) Fresh \<and>
     sumQty (inventory st) (i_sku item) Frozen + m_frozenMoved m
       = sumQty (inventory stC) (i_sku item) Frozen
         + m_soldFrozen m
         + pa_lostFrozen (upToShrink item p cfg (inventory stA) rngA)
         + sumQty (expiredBatches (i_sku item)
                     (pa_inventory (upToShrink item p cfg (inventory stA) rngA)))
             (i_sku item) Frozen \<and>
     m_shrinkLost m =
       pa_lostFresh (upToShrink item p cfg (inventory stA) rngA)
       + pa_lostFrozen (upToShrink item p cfg (inventory stA) rngA) \<and>
     m_wasted m =
       sumQty (expiredBatches (i_sku item)
                 (pa_inventory (upToShrink item p cfg (inventory stA) rngA))) (i_sku item) Fresh
       + sumQty (expiredBatches (i_sku item)
                   (pa_inventory (upToShrink item p cfg (inventory stA) rngA))) (i_sku item) Frozen"
proof -
  let ?items = "xs @ item # ys"
  let ?st0 = "receiveDeliveries ?items st"
  have n0: "nonnegLedger (inventory ?st0)" using nn by (rule receiveDeliveries_nonneg)
  have notx: "i_sku item \<notin> i_sku ` set xs" and noty: "i_sku item \<notin> i_sku ` set ys"
    using dist by auto
  have f1: "nonnegLedger (inventory stA)"
    and s1: "sumQty (inventory stA) (i_sku item) s = sumQty (inventory ?st0) (i_sku item) s" for s
    using skuLoop_frame [OF before n0] notx by simp_all
  have n2: "nonnegLedger (inventory stB)" using f1 step refl by (rule skuStep_balance(1))
  have s3: "sumQty (inventory stC) (i_sku item) s = sumQty (inventory stB) (i_sku item) s" for s
    using skuLoop_frame [OF after n2] noty by simp
  have day: "dayStep ?items policy cfg day st rng tot =
       Inr (\<lparr>dm_day = day, dm_perSku = msA @ m # msC\<rparr>, stC\<lparr>s_day := s_day stC + 1\<rparr>, rngC, totC)"
    by (simp add: dayStep_def skuLoop_append before pol step after)
  have fresh0: "sumQty (inventory ?st0) (i_sku item) Fresh =
      sumQty (inventory st) (i_sku item) Fresh
       + sumQty (receivedBatches ?items (arrivingToday (pendingDeliveries st))) (i_sku item) Fresh"
    by (rule receiveDeliveries_sum)
  have frozen0: "sumQty (inventory ?st0) (i_sku item) Frozen = sumQty (inventory st) (i_sku item) Frozen"
    by (simp add: receiveDeliveries_sum receivedBatches_frozen)
  note bal = skuStep_balance(2-5) [OF f1 step refl]
  show ?thesis
    using day bal s1 [of Fresh] s1 [of Frozen] s3 [of Fresh] s3 [of Frozen] fresh0 frozen0
    by simp
qed

text \<open>
  The example store on one day: 100 units at the start, 50 sold, 50 at the end.
\<close>

theorem conservation_per_sku_per_day_witness:
  "distinct (map i_sku ([] @ exItem # [])) \<and>
   nonnegLedger (inventory (exState 5)) \<and>
   dayStep [exItem] (exPolicy 60 100) exConfig 0 (exState 5) 0 zeroTotals =
     Inr (\<lparr>dm_day = 0, dm_perSku = [exMetrics 0]\<rparr>,
          \<lparr>s_day = 1,
           inventory = [\<lparr>b_sku = ''X'', b_qty = 50, b_daysToExpire = 4, b_state = Fresh\<rparr>],
           pendingDeliveries = [\<lparr>d_sku = ''X'', d_qty = 50, d_arrivingInDays = 2\<rparr>]\<rparr>,
          2 * 0x6d2b79f5, addTotals zeroTotals (exMetrics 0)) \<and>
   sumQty (inventory (exState 5)) ''X'' Fresh = 50 + m_soldFresh (exMetrics 0)"
  using conservation_per_sku_per_day [where xs = "[]" and item = exItem and ys = "[]"
      and st = "exState 5" and policy = "exPolicy 60 100" and cfg = exConfig and rng = 0
      and tot = zeroTotals and msA = "[]" and stA = "exState 5" and rngA = 0 and totA = zeroTotals
      and p = "exItemPolicy 60 100" and m = "exMetrics 0"
      and stB = "\<lparr>s_day = 0,
           inventory = [\<lparr>b_sku = ''X'', b_qty = 50, b_daysToExpire = 4, b_state = Fresh\<rparr>],
           pendingDeliveries = [\<lparr>d_sku = ''X'', d_qty = 50, d_arrivingInDays = 2\<rparr>]\<rparr>"
      and rngB = "2 * 0x6d2b79f5" and msC = "[]"
      and stC = "\<lparr>s_day = 0,
           inventory = [\<lparr>b_sku = ''X'', b_qty = 50, b_daysToExpire = 4, b_state = Fresh\<rparr>],
           pendingDeliveries = [\<lparr>d_sku = ''X'', d_qty = 50, d_arrivingInDays = 2\<rparr>]\<rparr>"
      and rngC = "2 * 0x6d2b79f5" and totC = "addTotals zeroTotals (exMetrics 0)" and day = 0]
  by (simp add: ex_receive ex_skuStep_order exPolicy_def)
     (simp add: exState_def nonnegLedger_def exMetrics_def exItem_def)

text \<open>
  C3 (amended). With \<open>fresh\<close> the fresh on-hand quantity after aging and
  \<open>target = max 0 (round orderUpTo)\<close>: the loop body enqueues a delivery if and only if
  \<open>fresh \<le> reorderPoint\<close> and \<open>fresh < target\<close>; the delivery is for \<open>target - fresh\<close>
  units and its countdown is \<open>max 0 (round leadTimeDays)\<close>. It stays in the queue, its
  countdown one lower each day, for as long as fewer than \<open>max 1 countdown\<close> days have
  passed, and the receipt step of day number \<open>max 1 countdown\<close> after the order turns it
  into a fresh batch of the ordered quantity at full shelf life and takes it off the
  queue: a lead time of 0 arrives at the next day's receipt, as a lead time of 1 does.
\<close>

theorem reorder_rule_and_lead_time:
  assumes step: "skuStep item p cfg st rng = (m, st', rng')"
    and rest: "skuLoop ys policy cfg st' rng' tot = Inr (ms, stE, rngE, totE)"
    and run: "daysLoop k day items policy cfg (stE\<lparr>s_day := s_day stE + 1\<rparr>) rngE totE
                = Inr (dms, stK, rngK, totK)"
    and cat: "find (\<lambda>it. i_sku it = i_sku item) items = Some item'"
    and fresh: "fresh = sumQty (inventory st') (i_sku item) Fresh"
    and order: "order = \<lparr>d_sku = i_sku item, d_qty = max 0 (round (p_orderUpTo p)) - fresh,
                          d_arrivingInDays = max 0 (round (i_leadTimeDays item))\<rparr>"
  shows
    "pendingDeliveries st' =
       pendingDeliveries st
       @ (if real_of_int fresh \<le> p_reorderPoint p \<and> fresh < max 0 (round (p_orderUpTo p))
          then [order] else []) \<and>
     (real_of_int fresh \<le> p_reorderPoint p \<and> fresh < max 0 (round (p_orderUpTo p)) \<longrightarrow>
        (int k < max 1 (d_arrivingInDays order) \<longrightarrow>
           order\<lparr>d_arrivingInDays := d_arrivingInDays order - int k\<rparr>
             \<in> set (pendingDeliveries stK)) \<and>
        (int k + 1 = max 1 (d_arrivingInDays order) \<longrightarrow>
           \<lparr>b_sku = i_sku item, b_qty = d_qty order,
            b_daysToExpire = max 1 (round (i_shelfLifeDays item')), b_state = Fresh\<rparr>
             \<in> set (inventory (receiveDeliveries items stK)) \<and>
           order\<lparr>d_arrivingInDays := d_arrivingInDays order - int k - 1\<rparr>
             \<notin> set (pendingDeliveries (receiveDeliveries items stK))))"
proof -
  have pend: "pendingDeliveries st' =
       pendingDeliveries st
       @ (if real_of_int fresh \<le> p_reorderPoint p \<and> fresh < max 0 (round (p_orderUpTo p))
          then [order] else [])"
    using skuStep_pending [OF step] by (simp add: reorderDecision_unfold fresh order)
  have later: "order\<lparr>d_arrivingInDays := d_arrivingInDays order - int k\<rparr>
             \<in> set (pendingDeliveries stK)"
    if c: "real_of_int fresh \<le> p_reorderPoint p \<and> fresh < max 0 (round (p_orderUpTo p))"
      and lt: "int k < max 1 (d_arrivingInDays order)"
  proof -
    have "order \<in> set (pendingDeliveries st')" using pend c by simp
    with rest have "order \<in> set (pendingDeliveries stE)" by (rule skuLoop_pending_mono)
    then have "order \<in> set (pendingDeliveries (stE\<lparr>s_day := s_day stE + 1\<rparr>))" by simp
    with run show ?thesis using lt by (rule daysLoop_countdown)
  qed
  have arrive: "\<lparr>b_sku = i_sku item, b_qty = d_qty order,
            b_daysToExpire = max 1 (round (i_shelfLifeDays item')), b_state = Fresh\<rparr>
             \<in> set (inventory (receiveDeliveries items stK)) \<and>
           order\<lparr>d_arrivingInDays := d_arrivingInDays order - int k - 1\<rparr>
             \<notin> set (pendingDeliveries (receiveDeliveries items stK))"
    if c: "real_of_int fresh \<le> p_reorderPoint p \<and> fresh < max 0 (round (p_orderUpTo p))"
      and eq: "int k + 1 = max 1 (d_arrivingInDays order)"
  proof -
    let ?x = "order\<lparr>d_arrivingInDays := d_arrivingInDays order - int k\<rparr>"
    have x: "?x \<in> set (pendingDeliveries stK)" using later [OF c] eq by simp
    have due: "d_arrivingInDays ?x \<le> 1" using eq by simp
    have f: "find (\<lambda>it. i_sku it = d_sku ?x) items = Some item'" using cat by (simp add: order)
    have q: "max 0 (d_qty ?x) = d_qty order" using c by (simp add: order)
    show ?thesis
      using receiveDeliveries_arrival [OF x due f] q by (simp add: order)
  qed
  show ?thesis
  proof (intro conjI impI)
    show "pendingDeliveries st' =
       pendingDeliveries st
       @ (if real_of_int fresh \<le> p_reorderPoint p \<and> fresh < max 0 (round (p_orderUpTo p))
          then [order] else [])"
      by (rule pend)
  next
    assume "real_of_int fresh \<le> p_reorderPoint p \<and> fresh < max 0 (round (p_orderUpTo p))"
      and "int k < max 1 (d_arrivingInDays order)"
    then show "order\<lparr>d_arrivingInDays := d_arrivingInDays order - int k\<rparr>
             \<in> set (pendingDeliveries stK)"
      by (rule later)
  next
    assume c: "real_of_int fresh \<le> p_reorderPoint p \<and> fresh < max 0 (round (p_orderUpTo p))"
      and e: "int k + 1 = max 1 (d_arrivingInDays order)"
    show "\<lparr>b_sku = i_sku item, b_qty = d_qty order,
            b_daysToExpire = max 1 (round (i_shelfLifeDays item')), b_state = Fresh\<rparr>
             \<in> set (inventory (receiveDeliveries items stK))"
      using arrive [OF c e] by (rule conjunct1)
    show "order\<lparr>d_arrivingInDays := d_arrivingInDays order - int k - 1\<rparr>
             \<notin> set (pendingDeliveries (receiveDeliveries items stK))"
      using arrive [OF c e] by (rule conjunct2)
  qed
qed

text \<open>
  The example item has a lead time of 2: the order of 50 units placed on day 0 is still
  pending at the end of day 1 and becomes a batch at the receipt of day 2.
\<close>

theorem reorder_rule_and_lead_time_witness:
  "\<exists>dms stK rngK totK.
     daysLoop 1 1 [exItem] (exPolicy 60 100) exConfig
       (\<lparr>s_day = 0,
         inventory = [\<lparr>b_sku = ''X'', b_qty = 50, b_daysToExpire = 4, b_state = Fresh\<rparr>],
         pendingDeliveries = [\<lparr>d_sku = ''X'', d_qty = 50, d_arrivingInDays = 2\<rparr>]\<rparr>
        \<lparr>s_day := 1\<rparr>)
       (2 * 0x6d2b79f5) zeroTotals = Inr (dms, stK, rngK, totK) \<and>
     \<lparr>d_sku = ''X'', d_qty = 50, d_arrivingInDays = 1\<rparr> \<in> set (pendingDeliveries stK) \<and>
     \<lparr>b_sku = ''X'', b_qty = 50, b_daysToExpire = 5, b_state = Fresh\<rparr>
       \<in> set (inventory (receiveDeliveries [exItem] stK))"
proof -
  let ?stB = "\<lparr>s_day = 0,
         inventory = [\<lparr>b_sku = ''X'', b_qty = 50, b_daysToExpire = 4, b_state = Fresh\<rparr>],
         pendingDeliveries = [\<lparr>d_sku = ''X'', d_qty = 50, d_arrivingInDays = 2\<rparr>]\<rparr>"
  have step: "skuStep exItem (exItemPolicy 60 100) exConfig (exState 5) 0
      = (exMetrics 0, ?stB, 2 * 0x6d2b79f5)"
    using ex_skuStep_order [of 0] by simp
  have rest: "skuLoop [] (exPolicy 60 100) exConfig ?stB (2 * 0x6d2b79f5) zeroTotals
      = Inr ([], ?stB, 2 * 0x6d2b79f5, zeroTotals)"
    by simp
  obtain dms stK rngK totK where
    run: "daysLoop 1 1 [exItem] (exPolicy 60 100) exConfig (?stB\<lparr>s_day := s_day ?stB + 1\<rparr>)
            (2 * 0x6d2b79f5) zeroTotals = Inr (dms, stK, rngK, totK)"
    using daysLoop_total [OF ex_policy_complete] by (metis prod_cases4)
  have cat: "find (\<lambda>it. i_sku it = i_sku exItem) [exItem] = Some exItem" by simp
  note t = reorder_rule_and_lead_time [OF step rest run cat refl refl]
  have "\<lparr>d_sku = ''X'', d_qty = 50, d_arrivingInDays = 1\<rparr> \<in> set (pendingDeliveries stK) \<and>
     \<lparr>b_sku = ''X'', b_qty = 50, b_daysToExpire = 5, b_state = Fresh\<rparr>
       \<in> set (inventory (receiveDeliveries [exItem] stK))"
    using t by (simp add: exItem_def exItemPolicy_def)
  moreover have "daysLoop 1 1 [exItem] (exPolicy 60 100) exConfig (?stB\<lparr>s_day := 1\<rparr>)
            (2 * 0x6d2b79f5) zeroTotals = Inr (dms, stK, rngK, totK)"
    using run by simp
  ultimately show ?thesis by blast
qed

text \<open>
  C3 as stated fails: with reorder point 60 and order-up-to level 40, the 50 units on
  hand after aging are at most the reorder point, and no delivery is enqueued.
\<close>

theorem reorder_iff_counterexample:
  "real_of_int
     (sumQty (inventory (fst (snd (skuStep exItem (exItemPolicy 60 40) exConfig (exState 5) 0))))
        ''X'' Fresh) \<le> p_reorderPoint (exItemPolicy 60 40) \<and>
   pendingDeliveries (fst (snd (skuStep exItem (exItemPolicy 60 40) exConfig (exState 5) 0)))
     = pendingDeliveries (exState 5)"
  unfolding ex_skuStep_no_order by (simp add: exItemPolicy_def exState_def)





text \<open>
  C6. For a target above 0 the sub-score of a value \<open>v\<close> is exactly
  \<open>1 / (1 + exp (- 3 * (v / target - 1)))\<close> for a rate where higher is better and
  \<open>1 / (1 + exp (3 * (v / target - 1)))\<close> for the waste rate; for a target of 0 or less
  it is 1 when the value is on the favourable side of zero (\<open>v > 0\<close>, respectively
  \<open>v \<le> 0\<close>) and 0 otherwise.
\<close>

theorem normalize_logistic_formula:
  "(0 < target \<longrightarrow>
      normalizePositive v target = Some (1 / (1 + exp (- 3 * (v / target - 1)))) \<and>
      normalizeLowerIsBetter v target = Some (1 / (1 + exp (3 * (v / target - 1))))) \<and>
   (target \<le> 0 \<longrightarrow>
      normalizePositive v target = Some (if v > 0 then 1 else 0) \<and>
      normalizeLowerIsBetter v target = Some (if v \<le> 0 then 1 else 0))"
  by (simp add: normalizePositive_logistic normalizeLowerIsBetter_logistic)
     (simp add: normalizePositive_def normalizeLowerIsBetter_def clamp01_def)

theorem normalize_logistic_formula_witness:
  "(0::real) < 1 \<and> normalizePositive 1 1 = Some (1 / 2) \<and>
   normalizeLowerIsBetter 1 1 = Some (1 / 2) \<and>
   (0::real) \<le> 0 \<and> normalizePositive 1 0 = Some 1 \<and> normalizeLowerIsBetter 1 0 = Some 0"
  using normalize_logistic_formula [of 1 1] normalize_logistic_formula [of 0 1]
  by simp






text \<open>
  C9. On a ledger that satisfies the data-model invariant (every batch holds stock) and
  for a requested amount that is not negative, \<open>takeFromBatches\<close> removes exactly
  \<open>min requested available\<close> units of the (sku, state) pool and returns that amount, which
  is at most the request; the result holds no batch without stock; and the units come
  from the soonest-to-expire batches: in the ledger sorted by \<open>daysToExpire\<close>, whenever a
  batch of the pool has lost units, every batch of the pool with a smaller \<open>daysToExpire\<close>
  has been emptied (and is then pruned).
\<close>

theorem takeFromBatches_fifo:
  assumes "ledgerOk batches" and "0 \<le> qtyWanted"
  shows
    "snd (takeFromBatches batches sku st qtyWanted) = min qtyWanted (sumQty batches sku st) \<and>
     snd (takeFromBatches batches sku st qtyWanted) \<le> qtyWanted \<and>
     sumQty (fst (takeFromBatches batches sku st qtyWanted)) sku st =
       sumQty batches sku st - snd (takeFromBatches batches sku st qtyWanted) \<and>
     ledgerOk (fst (takeFromBatches batches sku st qtyWanted)) \<and>
     (0 < qtyWanted \<longrightarrow>
        fst (takeFromBatches batches sku st qtyWanted) =
          removeEmpty (fst (takeLoop (sortFifo batches) sku st qtyWanted))) \<and>
     (\<forall>i j. i < length batches \<and> j < length batches \<and>
        b_sku (sortFifo batches ! i) = sku \<and> b_state (sortFifo batches ! i) = st \<and>
        b_sku (sortFifo batches ! j) = sku \<and> b_state (sortFifo batches ! j) = st \<and>
        b_daysToExpire (sortFifo batches ! i) < b_daysToExpire (sortFifo batches ! j) \<and>
        b_qty (fst (takeLoop (sortFifo batches) sku st qtyWanted) ! j)
          < b_qty (sortFifo batches ! j)
        \<longrightarrow> b_qty (fst (takeLoop (sortFifo batches) sku st qtyWanted) ! i) = 0)"
proof -
  have nn: "nonnegLedger batches" using assms(1) by (rule ledgerOk_nonneg)
  have t: "snd (takeFromBatches batches sku st qtyWanted) = min qtyWanted (sumQty batches sku st)"
    using nn assms(2) by (rule takeFromBatches_taken)
  have s: "sumQty (fst (takeFromBatches batches sku st qtyWanted)) sku st =
       sumQty batches sku st - snd (takeFromBatches batches sku st qtyWanted)"
    using nn by (rule takeFromBatches_sum)
  have k: "ledgerOk (fst (takeFromBatches batches sku st qtyWanted))"
    using assms(1) by (rule ledgerOk_takeFromBatches)
  have e: "0 < qtyWanted \<longrightarrow>
        fst (takeFromBatches batches sku st qtyWanted) =
          removeEmpty (fst (takeLoop (sortFifo batches) sku st qtyWanted))"
    by (simp add: takeFromBatches_def Let_def split: prod.splits)
  have f: "b_qty (fst (takeLoop (sortFifo batches) sku st qtyWanted) ! i) = 0"
    if "i < length batches" "j < length batches"
      "b_sku (sortFifo batches ! i) = sku" "b_state (sortFifo batches ! i) = st"
      "b_daysToExpire (sortFifo batches ! i) < b_daysToExpire (sortFifo batches ! j)"
      "b_qty (fst (takeLoop (sortFifo batches) sku st qtyWanted) ! j)
          < b_qty (sortFifo batches ! j)" for i j
  proof -
    have ij: "i < j" using that(1,2,5) by (rule sortFifo_index_order)
    have ok: "ledgerOk (sortFifo batches)" using assms(1) by (simp add: ledgerOk_sortFifo)
    show ?thesis
      using ok ij _ that(3,4,6) by (rule takeLoop_fifo) (simp add: length_sortFifo that(2))
  qed
  show ?thesis using t s k e f by auto
qed

theorem takeFromBatches_fifo_witness:
  "ledgerOk [\<lparr>b_sku = ''milk'', b_qty = 3, b_daysToExpire = 5, b_state = Fresh\<rparr>,
             \<lparr>b_sku = ''milk'', b_qty = 4, b_daysToExpire = 2, b_state = Fresh\<rparr>] \<and>
   (0::int) \<le> 5 \<and>
   takeFromBatches [\<lparr>b_sku = ''milk'', b_qty = 3, b_daysToExpire = 5, b_state = Fresh\<rparr>,
                    \<lparr>b_sku = ''milk'', b_qty = 4, b_daysToExpire = 2, b_state = Fresh\<rparr>]
     ''milk'' Fresh 5 =
     ([\<lparr>b_sku = ''milk'', b_qty = 2, b_daysToExpire = 5, b_state = Fresh\<rparr>], 5)"
  using takeFromBatches_fifo [of
      "[\<lparr>b_sku = ''milk'', b_qty = 3, b_daysToExpire = 5, b_state = Fresh\<rparr>,
        \<lparr>b_sku = ''milk'', b_qty = 4, b_daysToExpire = 2, b_state = Fresh\<rparr>]" 5 "''milk''" Fresh]
  by (simp add: ledgerOk_def takeFromBatches_def sortFifo_def removeEmpty_def takeLoop_Cons)



end
